theory Spec2Isabelle
  imports Main "HOL-Library.Word" "HOL-Library.Signed_Division"
begin

unbundle bit_operations_syntax

section \<open>Data model\<close>

text \<open>
  The package \<open>pgo\<close> (file \<open>uuid/uuid.go\<close>) generates RFC 4122 / RFC 9562 identifiers of
  versions 1, 4 and 7 and parses their textual forms. A Go \<open>byte\<close> is an \<open>8 word\<close>; the
  array type \<open>UUID = [16]byte\<close> is a list of bytes that always has length 16 (every
  function below that returns one starts from \<open>replicate 16 0\<close> and only updates in place).
  A Go \<open>string\<close> and a \<open>[]byte\<close> holding text are sequences of bytes: Isabelle's \<open>char\<close> is
  exactly a byte, so both are \<open>string\<close>, and \<open>s[i]\<close> is \<open>s ! i\<close> with \<open>of_char\<close> giving its
  numeric value.
\<close>

type_synonym byte = "8 word"
type_synonym UUID = "byte list"

text \<open>
  Go functions here return a pair \<open>(value, error)\<close> with \<open>nil\<close> for success; the model keeps
  the pair, with \<open>None\<close> for \<open>nil\<close>, because callers in this file use the value of a failed
  call (\<open>UUIDv4\<close> parses the string \<open>UUIDv4asString\<close> returned with its error). The
  constructors are the error values the source creates: the failure of \<open>crypto/rand.Read\<close>,
  one constructor per \<open>fmt.Errorf\<close> message of the parsers, and \<open>Wrapped\<close> for the
  \<open>fmt.Errorf("...: %w", err)\<close> wrappers. \<open>NilPointerPanic\<close> is not a returned error but
  the run-time panic of dereferencing a \<open>nil\<close> generator pointer.
\<close>

datatype error =
    EntropyUnavailable
  | WrongUUIDFormat
  | InvalidUUIDFormat
  | WrongURNPrefix string
  | WrongURNPrefixBytes string
  | WrongUUIDLength nat
  | Wrapped string error
  | NilPointerPanic

section \<open>Hex codec\<close>

definition xvalues :: "byte list" where
  "xvalues = [
     255, 255, 255, 255, 255, 255, 255, 255, 255, 255, 255, 255, 255, 255, 255, 255,
     255, 255, 255, 255, 255, 255, 255, 255, 255, 255, 255, 255, 255, 255, 255, 255,
     255, 255, 255, 255, 255, 255, 255, 255, 255, 255, 255, 255, 255, 255, 255, 255,
     0, 1, 2, 3, 4, 5, 6, 7, 8, 9, 255, 255, 255, 255, 255, 255,
     255, 10, 11, 12, 13, 14, 15, 255, 255, 255, 255, 255, 255, 255, 255, 255,
     255, 255, 255, 255, 255, 255, 255, 255, 255, 255, 255, 255, 255, 255, 255, 255,
     255, 10, 11, 12, 13, 14, 15, 255, 255, 255, 255, 255, 255, 255, 255, 255,
     255, 255, 255, 255, 255, 255, 255, 255, 255, 255, 255, 255, 255, 255, 255, 255,
     255, 255, 255, 255, 255, 255, 255, 255, 255, 255, 255, 255, 255, 255, 255, 255,
     255, 255, 255, 255, 255, 255, 255, 255, 255, 255, 255, 255, 255, 255, 255, 255,
     255, 255, 255, 255, 255, 255, 255, 255, 255, 255, 255, 255, 255, 255, 255, 255,
     255, 255, 255, 255, 255, 255, 255, 255, 255, 255, 255, 255, 255, 255, 255, 255,
     255, 255, 255, 255, 255, 255, 255, 255, 255, 255, 255, 255, 255, 255, 255, 255,
     255, 255, 255, 255, 255, 255, 255, 255, 255, 255, 255, 255, 255, 255, 255, 255,
     255, 255, 255, 255, 255, 255, 255, 255, 255, 255, 255, 255, 255, 255, 255, 255,
     255, 255, 255, 255, 255, 255, 255, 255, 255, 255, 255, 255, 255, 255, 255, 255]"

definition xToByte :: "char \<Rightarrow> char \<Rightarrow> byte \<times> bool" where
  "xToByte x1 x2 =
     (let b1 = xvalues ! of_char x1;
          b2 = xvalues ! of_char x2
      in (push_bit 4 b1 OR b2, b1 \<noteq> 255 \<and> b2 \<noteq> 255))"

text \<open>
  \<open>fmt.Sprintf("%x", b)\<close> on a byte slice writes, for every byte \<open>c\<close>, the two characters
  \<open>ldigits[c>>4]\<close> and \<open>ldigits[c&0xF]\<close> (package \<open>fmt\<close>, \<open>fmtSbx\<close>).
\<close>

definition ldigits :: string where
  "ldigits = ''0123456789abcdef''"

definition fmt_x :: "byte list \<Rightarrow> string" where
  "fmt_x b = concat (map (\<lambda>c. [ldigits ! unat (drop_bit 4 c), ldigits ! unat (c AND 0xF)]) b)"

text \<open>The slice expression \<open>b[lo:hi]\<close>; every use in the source is within bounds.\<close>

definition subslice :: "'a list \<Rightarrow> nat \<Rightarrow> nat \<Rightarrow> 'a list" where
  "subslice b lo hi = take (hi - lo) (drop lo b)"

text \<open>
  The rendering all three generators end with:
  \<open>fmt.Sprintf("%x-%x-%x-%x-%x", b[0:4], b[4:6], b[6:8], b[8:10], b[10:16])\<close>
  (\<open>b[10:]\<close> in the v4 and v7 generators, where \<open>len(b) = 16\<close>).
\<close>

definition Sprintf_uuid :: "byte list \<Rightarrow> string" where
  "Sprintf_uuid b =
     fmt_x (subslice b 0 4) @ ''-'' @ fmt_x (subslice b 4 6) @ ''-'' @
     fmt_x (subslice b 6 8) @ ''-'' @ fmt_x (subslice b 8 10) @ ''-'' @
     fmt_x (subslice b 10 (length b))"

section \<open>Parser\<close>

text \<open>
  \<open>strings.EqualFold\<close> and \<open>bytes.EqualFold\<close> compare under Unicode simple case folding.
  Both calls in this file compare against an ASCII literal without the letters \<open>k\<close> and
  \<open>s\<close> (the only ASCII letters that fold to a character outside ASCII), so the comparison is
  bytewise equality up to ASCII letter case; operands of different length are never equal.
\<close>

definition lowerASCII :: "char \<Rightarrow> char" where
  "lowerASCII c =
     (if (65::nat) \<le> of_char c \<and> of_char c \<le> (90::nat) then char_of (of_char c + (32::nat)) else c)"

definition EqualFold :: "string \<Rightarrow> string \<Rightarrow> bool" where
  "EqualFold s t = (map lowerASCII s = map lowerASCII t)"

text \<open>
  The loop of the 32-character case of \<open>UUIDfromString\<close>, \<open>for i := range uuid\<close>, over the
  indices still to visit. The byte is stored before \<open>ok\<close> is tested.
\<close>

fun decode32 :: "string \<Rightarrow> nat list \<Rightarrow> UUID \<Rightarrow> UUID \<times> error option" where
  "decode32 s [] uuid = (uuid, None)"
| "decode32 s (i # is) uuid =
     (let (v, ok) = xToByte (s ! (i * 2)) (s ! (i * 2 + 1));
          uuid = uuid[i := v]
      in if \<not> ok then (uuid, Some WrongUUIDFormat) else decode32 s is uuid)"

text \<open>
  The final loop of both parsers,
  \<open>for i, x := range [16]int{0, 2, 4, 6, 9, 11, 14, 16, 19, 21, 24, 26, 28, 30, 32, 34}\<close>,
  over the (index, element) pairs still to visit.
\<close>

definition offsets :: "nat list" where
  "offsets = [0, 2, 4, 6, 9, 11, 14, 16, 19, 21, 24, 26, 28, 30, 32, 34]"

fun decode36 :: "string \<Rightarrow> (nat \<times> nat) list \<Rightarrow> UUID \<Rightarrow> UUID \<times> error option" where
  "decode36 s [] uuid = (uuid, None)"
| "decode36 s ((i, x) # rest) uuid =
     (let (val, ok) = xToByte (s ! x) (s ! (x + 1))
      in if \<not> ok then (uuid, Some InvalidUUIDFormat) else decode36 s rest (uuid[i := val]))"

text \<open>
  The code after the \<open>switch\<close>, shared by the lengths 36, 38 and 45: \<open>s\<close> is at least 36
  bytes long there, so every index is in range.
\<close>

definition parse_body :: "string \<Rightarrow> UUID \<Rightarrow> UUID \<times> error option" where
  "parse_body s uuid =
     (if s ! 8 \<noteq> CHR ''-'' \<or> s ! 13 \<noteq> CHR ''-'' \<or> s ! 18 \<noteq> CHR ''-'' \<or> s ! 23 \<noteq> CHR ''-''
      then (uuid, Some WrongUUIDFormat)
      else decode36 s (zip [0..<16] offsets) uuid)"

definition UUIDfromString :: "string \<Rightarrow> UUID \<times> error option" where
  "UUIDfromString s =
     (let uuid = replicate 16 0 in
      if length s = 32 then decode32 s [0..<16] uuid
      else if length s = 36 then parse_body s uuid
      else if length s = 36 + 2 then parse_body (drop 1 s) uuid
      else if length s = 36 + 9 then
        (if \<not> EqualFold (take 9 s) ''urn:uuid:''
         then (uuid, Some (WrongURNPrefix (take 9 s)))
         else parse_body (drop 9 s) uuid)
      else (uuid, Some (WrongUUIDLength (length s))))"

text \<open>
  The loop of the 32-byte case of \<open>UUIDfromBytes\<close>:
  \<open>for i := 0; i < 32; i += 2 { uuid[i/2], ok = xToByte(b[i], b[i+1]); ... }\<close>.
\<close>

function decode32_bytes :: "string \<Rightarrow> nat \<Rightarrow> UUID \<Rightarrow> UUID \<times> error option" where
  "decode32_bytes b i uuid =
     (if i < 32 then
        (let (v, ok) = xToByte (b ! i) (b ! (i + 1));
             uuid = uuid[i div 2 := v]
         in if \<not> ok then (uuid, Some WrongUUIDFormat) else decode32_bytes b (i + 2) uuid)
      else (uuid, None))"
  by pat_completeness auto
termination
  by (relation "measure (\<lambda>(b, i, uuid). 32 - i)") auto

declare decode32_bytes.simps [simp del]

definition UUIDfromBytes :: "string \<Rightarrow> UUID \<times> error option" where
  "UUIDfromBytes b =
     (let uuid = replicate 16 0 in
      if length b = 32 then decode32_bytes b 0 uuid
      else if length b = 36 then parse_body b uuid
      else if length b = 36 + 2 then parse_body (drop 1 b) uuid
      else if length b = 36 + 9 then
        (if \<not> EqualFold (take 9 b) ''urn:uuid''
         then (uuid, Some (WrongURNPrefixBytes (take 9 b)))
         else parse_body (drop 9 b) uuid)
      else (uuid, Some WrongUUIDFormat))"

section \<open>Randomness, byte order and the clock\<close>

text \<open>
  \<open>crypto/rand.Read(b)\<close> either fills all of \<open>b\<close> or returns an error. Every call site
  gets the outcome of its own read as an argument: the read fails with some error, or it
  delivers the bytes \<open>f 0, f 1, ...\<close>.
\<close>

datatype entropy = EntropyFails error | Entropy "nat \<Rightarrow> byte"

definition rand_Read :: "entropy \<Rightarrow> nat \<Rightarrow> byte list \<times> error option" where
  "rand_Read e n =
     (case e of
        EntropyFails err \<Rightarrow> (replicate n 0, Some err)
      | Entropy f \<Rightarrow> (map f [0..<n], None))"

text \<open>
  \<open>encoding/binary.BigEndian\<close>. A slice argument such as \<open>uuid[4:6]\<close> aliases the array,
  so the writers take the array and the offset of the slice in it.
\<close>

definition BigEndian_Uint16 :: "byte list \<Rightarrow> 16 word" where
  "BigEndian_Uint16 b = ucast (b ! 1) OR push_bit 8 (ucast (b ! 0))"

definition BigEndian_PutUint16 :: "byte list \<Rightarrow> nat \<Rightarrow> 16 word \<Rightarrow> byte list" where
  "BigEndian_PutUint16 b off v = b[off := ucast (drop_bit 8 v), off + 1 := ucast v]"

definition BigEndian_PutUint32 :: "byte list \<Rightarrow> nat \<Rightarrow> 32 word \<Rightarrow> byte list" where
  "BigEndian_PutUint32 b off v =
     b[off := ucast (drop_bit 24 v), off + 1 := ucast (drop_bit 16 v),
       off + 2 := ucast (drop_bit 8 v), off + 3 := ucast v]"

definition PutUint48 :: "byte list \<Rightarrow> nat \<Rightarrow> 64 word \<Rightarrow> byte list" where
  "PutUint48 b off v =
     b[off := ucast (drop_bit 40 v), off + 1 := ucast (drop_bit 32 v),
       off + 2 := ucast (drop_bit 24 v), off + 3 := ucast (drop_bit 16 v),
       off + 4 := ucast (drop_bit 8 v), off + 5 := ucast v]"

text \<open>
  The builtin \<open>copy(dst[lo:hi], src)\<close>: it copies \<open>min(hi - lo, len(src))\<close> elements.
\<close>

definition copy :: "'a list \<Rightarrow> nat \<Rightarrow> nat \<Rightarrow> 'a list \<Rightarrow> 'a list" where
  "copy dst lo hi src =
     (let n = min (hi - lo) (length src) in take lo dst @ take n src @ drop (lo + n) dst)"

section \<open>Version 1 generator\<close>

text \<open>The mutex \<open>Mtx\<close> serialises the calls; the model is the sequential behaviour of one call.\<close>

record UUIDv1Generator =
  LastTimestamp :: "64 word"
  ClockSeq :: "16 word"
  Node :: "byte list"

definition gregorianOffset :: "64 word" where
  "gregorianOffset = 122192928000000000"

definition clockSeqMask :: "16 word" where
  "clockSeqMask = 0x3fff"

text \<open>
  \<open>net.Interfaces()\<close> returns the interfaces of the machine or an error; of an interface
  the code reads \<open>Flags\<close> and \<open>HardwareAddr\<close>. \<open>net.FlagLoopback\<close> is \<open>1 << 2\<close> and
  \<open>net.FlagPointToPoint\<close> is \<open>1 << 3\<close> in package \<open>net\<close>.
\<close>

record Interface =
  Flags :: "64 word"
  HardwareAddr :: "byte list"

definition FlagLoopback :: "64 word" where
  "FlagLoopback = 4"

definition FlagPointToPoint :: "64 word" where
  "FlagPointToPoint = 8"

fun first_hardware_addr :: "Interface list \<Rightarrow> byte list option" where
  "first_hardware_addr [] = None"
| "first_hardware_addr (iface # rest) =
     (if Flags iface AND (FlagLoopback OR FlagPointToPoint) \<noteq> 0 then first_hardware_addr rest
      else if length (HardwareAddr iface) = 6
        then Some (copy (replicate 6 0) 0 6 (HardwareAddr iface))
      else first_hardware_addr rest)"

definition GetNodeID :: "Interface list \<times> error option \<Rightarrow> entropy \<Rightarrow> byte list \<times> error option" where
  "GetNodeID ifs ent =
     (case (if snd ifs = None then first_hardware_addr (fst ifs) else None) of
        Some node \<Rightarrow> (node, None)
      | None \<Rightarrow>
          (case rand_Read ent 6 of
             (randomNode, Some err) \<Rightarrow>
               (replicate 6 0, Some (Wrapped ''fail to generate random node ID'' err))
           | (randomNode, None) \<Rightarrow>
               (let randomNode = randomNode[0 := randomNode ! 0 OR 0x01]
                in (copy (replicate 6 0) 0 6 randomNode, None))))"

definition GetRandom14Bit :: "entropy \<Rightarrow> 16 word \<times> error option" where
  "GetRandom14Bit ent =
     (case rand_Read ent 2 of
        (b, Some err) \<Rightarrow> (0, Some err)
      | (b, None) \<Rightarrow> (BigEndian_Uint16 b AND clockSeqMask, None))"

text \<open>
  \<open>getTimestamp\<close> reads \<open>time.Now().UnixNano()\<close>, an \<open>int64\<close>; the model takes that reading.
  Go's \<open>/\<close> on signed integers truncates towards zero (\<open>sdiv\<close>), and the conversion to
  \<open>uint64\<close> keeps the bit pattern.
\<close>

definition getTimestamp :: "64 word \<Rightarrow> 64 word" where
  "getTimestamp unixNano =
     (let unixTime = sint unixNano sdiv 100 in word_of_int unixTime + gregorianOffset)"

text \<open>
  The clock of one call: \<open>clk k\<close> is the \<open>k\<close>-th reading of \<open>time.Now().UnixNano()\<close> the
  call makes. The waiting loop
  \<open>for timestamp == g.LastTimestamp { time.Sleep(time.Microsecond); timestamp = getTimestamp() }\<close>
  runs for as long as the clock shows the stored tick, possibly forever: not returning is
  the value \<open>None\<close>. The argument \<open>k\<close> counts the readings made so far.
\<close>

partial_function (option) wait_timestamp :: "(nat \<Rightarrow> 64 word) \<Rightarrow> 64 word \<Rightarrow> nat \<Rightarrow> 64 word \<Rightarrow> 64 word option" where
  "wait_timestamp clk lastTimestamp k timestamp =
     (if timestamp = lastTimestamp
      then wait_timestamp clk lastTimestamp (k + 1) (getTimestamp (clk k))
      else Some timestamp)"

text \<open>
  Two clocks for concrete runs: one frozen at the Unix epoch, one that advances by one
  100-nanosecond tick with every reading.
\<close>

definition frozen_clock :: "nat \<Rightarrow> 64 word" where
  "frozen_clock k = 0"

definition ticking_clock :: "nat \<Rightarrow> 64 word" where
  "ticking_clock k = 100 * of_nat k"

text \<open>
  The \<open>switch\<close> of \<open>NewV1\<close>: the timestamp and clock sequence the call goes on with, and the
  error of an early \<open>return "", err\<close>.
\<close>

definition v1_switch :: "UUIDv1Generator \<Rightarrow> (nat \<Rightarrow> 64 word) \<Rightarrow> entropy \<Rightarrow> ((64 word \<times> 16 word) \<times> error option) option" where
  "v1_switch g clk ent =
     (let timestamp = getTimestamp (clk 0) in
      if LastTimestamp g = 0 then
        (let (clockSeq, err) = GetRandom14Bit ent in Some ((timestamp, clockSeq), err))
      else if timestamp < LastTimestamp g then
        Some ((timestamp, (ClockSeq g + 1) AND clockSeqMask), None)
      else if timestamp = LastTimestamp g then
        (let clockSeq = (ClockSeq g + 1) AND clockSeqMask in
         if clockSeq = 0 then
           (case wait_timestamp clk (LastTimestamp g) 1 timestamp of
              None \<Rightarrow> None
            | Some timestamp \<Rightarrow>
                (let (clockSeq, err) = GetRandom14Bit ent in Some ((timestamp, clockSeq), err)))
         else Some ((timestamp, clockSeq), None))
      else
        (let (clockSeq, err) = GetRandom14Bit ent in Some ((timestamp, clockSeq), err)))"

text \<open>The 16 bytes \<open>NewV1\<close> builds from the timestamp, the clock sequence and the node.\<close>

definition v1_bytes :: "64 word \<Rightarrow> 16 word \<Rightarrow> byte list \<Rightarrow> byte list" where
  "v1_bytes timestamp clockSeq node =
     (let timeLow = (ucast (timestamp AND 0xFFFFFFFF) :: 32 word);
          timeMid = (ucast (drop_bit 32 timestamp AND 0xFFFF) :: 16 word);
          timeHiAndVersion = (ucast (drop_bit 48 timestamp AND 0x0FFF) :: 16 word) OR 0x1000;
          clockSeqLow = (ucast (clockSeq AND 0xFF) :: byte);
          clockSeqHiAndVariant = (ucast (drop_bit 8 clockSeq AND 0x3F) :: byte) OR 0x80;
          uuid = replicate 16 0;
          uuid = BigEndian_PutUint32 uuid 0 timeLow;
          uuid = BigEndian_PutUint16 uuid 4 timeMid;
          uuid = BigEndian_PutUint16 uuid 6 timeHiAndVersion;
          uuid = uuid[8 := clockSeqHiAndVariant];
          uuid = uuid[9 := clockSeqLow];
          uuid = copy uuid 10 16 node
      in uuid)"

text \<open>
  The end of \<open>NewV1\<close> after the \<open>switch\<close>: the timestamp and the clock sequence are
  stored in the generator, the 16 bytes are built and rendered.
\<close>

definition v1_finish :: "UUIDv1Generator \<Rightarrow> 64 word \<Rightarrow> 16 word \<Rightarrow> (string \<times> error option) \<times> UUIDv1Generator" where
  "v1_finish g timestamp clockSeq =
     (let g = g\<lparr>LastTimestamp := timestamp, ClockSeq := clockSeq\<rparr>
      in ((Sprintf_uuid (v1_bytes timestamp clockSeq (Node g)), None), g))"

text \<open>
  \<open>NewV1\<close> returns the string, the error and the generator as the call leaves it; an early
  error return leaves the generator as it was. \<open>None\<close>: the waiting loop never ends.
\<close>

definition NewV1 :: "UUIDv1Generator \<Rightarrow> (nat \<Rightarrow> 64 word) \<Rightarrow> entropy \<Rightarrow> ((string \<times> error option) \<times> UUIDv1Generator) option" where
  "NewV1 g clk ent =
     (case v1_switch g clk ent of
        None \<Rightarrow> None
      | Some ((timestamp, clockSeq), Some err) \<Rightarrow> Some (([], Some err), g)
      | Some ((timestamp, clockSeq), None) \<Rightarrow> Some (v1_finish g timestamp clockSeq))"

definition NewUUIDv1Generator :: "Interface list \<times> error option \<Rightarrow> entropy \<Rightarrow> entropy \<Rightarrow> UUIDv1Generator option \<times> error option" where
  "NewUUIDv1Generator ifs ent_node ent_seq =
     (case GetNodeID ifs ent_node of
        (node, Some err) \<Rightarrow> (None, Some (Wrapped ''fail to initialize node ID'' err))
      | (node, None) \<Rightarrow>
          (case GetRandom14Bit ent_seq of
             (clockSeq, Some err) \<Rightarrow>
               (None, Some (Wrapped ''fail to initialize clock sequence'' err))
           | (clockSeq, None) \<Rightarrow>
               (Some \<lparr>LastTimestamp = 0, ClockSeq = clockSeq, Node = node\<rparr>, None)))"

text \<open>
  The package variables of the v1 singleton; \<open>GlobalGeneratorV1Once\<close> holds whether the
  \<open>sync.Once\<close> has run. A \<open>nil\<close> generator with a \<open>nil\<close> error (only reachable by assigning
  the exported variables) makes the method call panic.
\<close>

record GlobalsV1 =
  GlobalGeneratorV1 :: "UUIDv1Generator option"
  GlobalGeneratorV1Once :: bool
  GlobalGeneratorV1Err :: "error option"

definition UUIDv1asString :: "GlobalsV1 \<Rightarrow> Interface list \<times> error option \<Rightarrow> entropy \<Rightarrow> entropy \<Rightarrow> (nat \<Rightarrow> 64 word) \<Rightarrow> entropy \<Rightarrow> ((string \<times> error option) \<times> GlobalsV1) option" where
  "UUIDv1asString G ifs ent_node ent_seq clk ent =
     (let G = (if GlobalGeneratorV1Once G then G
               else (let (g, err) = NewUUIDv1Generator ifs ent_node ent_seq
                     in \<lparr>GlobalGeneratorV1 = g, GlobalGeneratorV1Once = True,
                         GlobalGeneratorV1Err = err\<rparr>))
      in case GlobalGeneratorV1Err G of
           Some err \<Rightarrow> Some (([], Some (Wrapped ''fail to initialize uuid v1'' err)), G)
         | None \<Rightarrow>
             (case GlobalGeneratorV1 G of
                None \<Rightarrow> Some (([], Some NilPointerPanic), G)
              | Some g \<Rightarrow>
                  (case NewV1 g clk ent of
                     None \<Rightarrow> None
                   | Some (res, g) \<Rightarrow> Some (res, G\<lparr>GlobalGeneratorV1 := Some g\<rparr>))))"

text \<open>
  \<open>UUIDv1\<close> drops the error of \<open>UUIDv1asString\<close> and parses the string it got; a panic
  is not a return value and goes through.
\<close>

definition UUIDv1 :: "GlobalsV1 \<Rightarrow> Interface list \<times> error option \<Rightarrow> entropy \<Rightarrow> entropy \<Rightarrow> (nat \<Rightarrow> 64 word) \<Rightarrow> entropy \<Rightarrow> ((UUID \<times> error option) \<times> GlobalsV1) option" where
  "UUIDv1 G ifs ent_node ent_seq clk ent =
     (case UUIDv1asString G ifs ent_node ent_seq clk ent of
        None \<Rightarrow> None
      | Some ((res, err), G) \<Rightarrow>
          (if err = Some NilPointerPanic then Some ((replicate 16 0, Some NilPointerPanic), G)
           else Some (UUIDfromString res, G)))"

section \<open>Version 4 generator\<close>

definition UUIDv4asString :: "entropy \<Rightarrow> string \<times> error option" where
  "UUIDv4asString ent =
     (case rand_Read ent 16 of
        (b, Some err) \<Rightarrow> (''uuid_v4-error#1'', Some err)
      | (b, None) \<Rightarrow>
          (let b = b[6 := (b ! 6 AND 0x0f) OR 0x40];
               b = b[8 := (b ! 8 AND 0x3f) OR 0x80]
           in (Sprintf_uuid b, None)))"

text \<open>\<open>UUIDv4\<close> drops the error of \<open>UUIDv4asString\<close> and parses the string it got.\<close>

definition UUIDv4 :: "entropy \<Rightarrow> UUID \<times> error option" where
  "UUIDv4 ent = (let (res, _) = UUIDv4asString ent in UUIDfromString res)"

section \<open>Version 7 generator\<close>

text \<open>
  \<open>LastMillis\<close> is an \<open>int64\<close>, \<open>Counter\<close> a \<open>uint16\<close>. \<open>NewV7\<close> reads
  \<open>time.Now().UnixMilli()\<close> once; the model takes that reading as \<open>now\<close> (\<open>uint64(now)\<close>
  keeps the bit pattern), and the outcomes of the two reads of the random source.
\<close>

record UUIDGeneratorV7 =
  LastMillis :: "64 word"
  Counter :: "16 word"

definition NewUUIDGeneratorV7 :: "UUIDGeneratorV7 option \<times> error option" where
  "NewUUIDGeneratorV7 = (Some \<lparr>LastMillis = 0, Counter = 0\<rparr>, None)"

text \<open>
  \<open>NewV7\<close> returns the string, the error and the generator as the call leaves it: the
  updates of \<open>LastMillis\<close> and \<open>Counter\<close> are made before the reads that can fail and stay.
\<close>

definition NewV7 :: "UUIDGeneratorV7 \<Rightarrow> 64 word \<Rightarrow> entropy \<Rightarrow> entropy \<Rightarrow> (string \<times> error option) \<times> UUIDGeneratorV7" where
  "NewV7 g now ent_seq ent_tail =
     (let g = (if now \<noteq> LastMillis g then g\<lparr>LastMillis := now, Counter := 0\<rparr> else g);
          (counterBits, g, err) =
            (if Counter g < 4095 then (Counter g, g\<lparr>Counter := Counter g + 1\<rparr>, None)
             else (case rand_Read ent_seq 2 of
                     (randBuf, Some err) \<Rightarrow> (0, g, Some err)
                   | (randBuf, None) \<Rightarrow> (BigEndian_Uint16 randBuf AND 0x0FFF, g, None)))
      in case err of
           Some err \<Rightarrow> (([], Some err), g)
         | None \<Rightarrow>
             (let uuid = replicate 16 0;
                  uuid = PutUint48 uuid 0 now;
                  uuid = uuid[6 := push_bit 4 7 OR ucast (drop_bit 8 counterBits)];
                  uuid = uuid[7 := ucast counterBits]
              in case rand_Read ent_tail 10 of
                   (randBuf, Some err) \<Rightarrow> (([], Some err), g)
                 | (randBuf, None) \<Rightarrow>
                     (let uuid = uuid[8 := (randBuf ! 0 AND 0x3F) OR 0x80];
                          uuid = copy uuid 9 16 (drop 1 randBuf)
                      in ((Sprintf_uuid uuid, None), g))))"

text \<open>
  The first step of \<open>NewV7\<close> on its own, the millisecond check
  \<open>if now != g.LastMillis { g.LastMillis = now; g.Counter = 0 }\<close>.
\<close>

definition millis_check :: "UUIDGeneratorV7 \<Rightarrow> 64 word \<Rightarrow> UUIDGeneratorV7" where
  "millis_check g now = (if now \<noteq> LastMillis g then g\<lparr>LastMillis := now, Counter := 0\<rparr> else g)"

text \<open>
  The package variables of the v7 singleton. \<open>UUIDv7asString\<close> does not call \<open>NewV7\<close>: it
  repeats the body of \<open>NewV7\<close> on \<open>GeneratorV7\<close>, and so does the model.
\<close>

record GlobalsV7 =
  GeneratorV7 :: "UUIDGeneratorV7 option"
  GeneratorV7Once :: bool
  GeneratorV7Err :: "error option"

definition UUIDv7asString :: "GlobalsV7 \<Rightarrow> 64 word \<Rightarrow> entropy \<Rightarrow> entropy \<Rightarrow> (string \<times> error option) \<times> GlobalsV7" where
  "UUIDv7asString G now ent_seq ent_tail =
     (let G = (if GeneratorV7Once G then G
               else (let (g, err) = NewUUIDGeneratorV7
                     in \<lparr>GeneratorV7 = g, GeneratorV7Once = True, GeneratorV7Err = err\<rparr>))
      in case GeneratorV7Err G of
           Some err \<Rightarrow> (([], Some (Wrapped ''fail to initialize uuid v7'' err)), G)
         | None \<Rightarrow>
             (case GeneratorV7 G of
                None \<Rightarrow> (([], Some NilPointerPanic), G)
              | Some g \<Rightarrow>
                  (let g = (if now \<noteq> LastMillis g then g\<lparr>LastMillis := now, Counter := 0\<rparr>
                            else g);
                       (counterBits, g, err) =
                         (if Counter g < 4095
                          then (Counter g, g\<lparr>Counter := Counter g + 1\<rparr>, None)
                          else (case rand_Read ent_seq 2 of
                                  (randBuf, Some err) \<Rightarrow> (0, g, Some err)
                                | (randBuf, None) \<Rightarrow>
                                    (BigEndian_Uint16 randBuf AND 0x0FFF, g, None)));
                       G = G\<lparr>GeneratorV7 := Some g\<rparr>
                   in case err of
                        Some err \<Rightarrow> (([], Some err), G)
                      | None \<Rightarrow>
                          (let uuid = replicate 16 0;
                               uuid = PutUint48 uuid 0 now;
                               uuid = uuid[6 := push_bit 4 7 OR ucast (drop_bit 8 counterBits)];
                               uuid = uuid[7 := ucast counterBits]
                           in case rand_Read ent_tail 10 of
                                (randBuf, Some err) \<Rightarrow> (([], Some err), G)
                              | (randBuf, None) \<Rightarrow>
                                  (let uuid = uuid[8 := (randBuf ! 0 AND 0x3F) OR 0x80];
                                       uuid = copy uuid 9 16 (drop 1 randBuf)
                                   in ((Sprintf_uuid uuid, None), G))))))"

definition UUIDv7 :: "GlobalsV7 \<Rightarrow> 64 word \<Rightarrow> entropy \<Rightarrow> entropy \<Rightarrow> (UUID \<times> error option) \<times> GlobalsV7" where
  "UUIDv7 G now ent_seq ent_tail =
     (let ((res, err), G) = UUIDv7asString G now ent_seq ent_tail
      in if err = Some NilPointerPanic then ((replicate 16 0, Some NilPointerPanic), G)
         else (UUIDfromString res, G))"

text \<open>
  A run of one generator: the calls of \<open>NewV7\<close> in the order the mutex admits them, each
  with its clock reading and its random reads; the results in the same order.
\<close>

fun run_v7 :: "UUIDGeneratorV7 \<Rightarrow> (64 word \<times> entropy \<times> entropy) list \<Rightarrow> (string \<times> error option) list" where
  "run_v7 g [] = []"
| "run_v7 g ((now, ent_seq, ent_tail) # calls) =
     (let (res, g) = NewV7 g now ent_seq ent_tail in res # run_v7 g calls)"

text \<open>
  The generator as each call of a run finds it, and whether a call takes the rollover
  branch (the \<open>else\<close> of \<open>if g.Counter < 4095\<close>, after the millisecond check).
\<close>

fun states_v7 :: "UUIDGeneratorV7 \<Rightarrow> (64 word \<times> entropy \<times> entropy) list \<Rightarrow> UUIDGeneratorV7 list" where
  "states_v7 g [] = []"
| "states_v7 g ((now, ent_seq, ent_tail) # calls) =
     g # states_v7 (snd (NewV7 g now ent_seq ent_tail)) calls"

definition rollover :: "UUIDGeneratorV7 \<Rightarrow> 64 word \<Rightarrow> bool" where
  "rollover g now = (\<not> Counter (millis_check g now) < 4095)"

text \<open>A random source that delivers zero bytes, for concrete runs.\<close>

definition zero_entropy :: entropy where
  "zero_entropy = Entropy (\<lambda>_. 0)"

section \<open>Reading the fields of an identifier\<close>

text \<open>
  The fields the properties below speak of: the version (top four bits of byte 6), the
  variant (top two bits of byte 8), and for version 7 the 48-bit timestamp (bytes 0 to 5,
  big-endian) and the 12-bit sequence value (low four bits of byte 6, then byte 7).
\<close>

definition version_of :: "UUID \<Rightarrow> byte" where
  "version_of u = drop_bit 4 (u ! 6)"

definition variant_of :: "UUID \<Rightarrow> byte" where
  "variant_of u = drop_bit 6 (u ! 8)"

definition timestamp_field :: "UUID \<Rightarrow> 64 word" where
  "timestamp_field u = foldl (\<lambda>acc b. push_bit 8 acc OR ucast b) 0 (take 6 u)"

definition sequence_field :: "UUID \<Rightarrow> 16 word" where
  "sequence_field u = push_bit 8 (ucast (u ! 6 AND 0x0F)) OR ucast (u ! 7)"

text \<open>
  A string is the rendering of a 16-byte identifier, which the parser gives back, with the
  version \<open>v\<close> and the variant bits \<open>10\<close>.
\<close>

definition renders_version :: "string \<Rightarrow> byte \<Rightarrow> bool" where
  "renders_version s v =
     (let (u, err) = UUIDfromString s
      in err = None \<and> length u = 16 \<and> s = Sprintf_uuid u \<and> version_of u = v \<and> variant_of u = 2)"

text \<open>
  A string is the rendering of a 16-byte identifier, which the parser gives back, whose
  bytes 0 to 5 are \<open>now\<close> in big-endian order (its low 48 bits), whose byte 6 is the
  version nibble 7 followed by the top four bits of the 12-bit value \<open>seq\<close>, and whose
  byte 7 is the low eight bits of \<open>seq\<close>.
\<close>

definition v7_layout :: "string \<Rightarrow> 64 word \<Rightarrow> 16 word \<Rightarrow> bool" where
  "v7_layout s now seq =
     (let (u, err) = UUIDfromString s
      in err = None \<and> length u = 16 \<and> s = Sprintf_uuid u \<and>
         take 6 u = [ucast (drop_bit 40 now), ucast (drop_bit 32 now), ucast (drop_bit 24 now),
                     ucast (drop_bit 16 now), ucast (drop_bit 8 now), ucast now] \<and>
         timestamp_field u = take_bit 48 now \<and>
         u ! 6 = 0x70 OR ucast (drop_bit 8 seq) \<and> u ! 7 = ucast seq \<and>
         sequence_field u = seq)"

section \<open>Shapes of text\<close>

text \<open>
  A hexadecimal digit in either case, and the canonical 36-character shape
  \<open>xxxxxxxx-xxxx-xxxx-xxxx-xxxxxxxxxxxx\<close>: hyphens at the positions 8, 13, 18 and 23
  (counted from 0), hexadecimal digits everywhere else.
\<close>

definition is_hex :: "char \<Rightarrow> bool" where
  "is_hex c =
     ((of_char c :: nat) \<in> {of_char CHR ''0'' .. of_char CHR ''9''} \<union>
        {of_char CHR ''A'' .. of_char CHR ''F''} \<union> {of_char CHR ''a'' .. of_char CHR ''f''})"

definition canonical_shape :: "string \<Rightarrow> bool" where
  "canonical_shape body =
     (length body = 36 \<and>
      list_all (\<lambda>i. if i \<in> {8, 13, 18, 23} then body ! i = CHR ''-'' else is_hex (body ! i))
        [0..<36])"

text \<open>
  The 36 characters the parser reads after its \<open>switch\<close>: the input itself, the input
  without its first and last character (38 characters), or the input without its
  nine-character prefix (45 characters).
\<close>

definition unwrapped_body :: "string \<Rightarrow> string" where
  "unwrapped_body s =
     (if length s = 38 then take 36 (drop 1 s) else if length s = 45 then drop 9 s else s)"

text \<open>The canonical shape written out position by position.\<close>

definition shape36 :: "string \<Rightarrow> bool" where
  "shape36 s = (list_all (\<lambda>i. is_hex (s ! i)) [0, 1, 2, 3, 4, 5, 6, 7] \<and> s ! 8 = CHR ''-'' \<and>
     list_all (\<lambda>i. is_hex (s ! i)) [9, 10, 11, 12] \<and> s ! 13 = CHR ''-'' \<and>
     list_all (\<lambda>i. is_hex (s ! i)) [14, 15, 16, 17] \<and> s ! 18 = CHR ''-'' \<and>
     list_all (\<lambda>i. is_hex (s ! i)) [19, 20, 21, 22] \<and> s ! 23 = CHR ''-'' \<and>
     list_all (\<lambda>i. is_hex (s ! i)) [24, 25, 26, 27, 28, 29, 30, 31, 32, 33, 34, 35])"

text \<open>
  The 16 bytes \<open>NewV7\<close> builds, written out. \<open>f\<close> delivers the ten random bytes, of which
  \<open>copy(uuid[9:], randBuf[1:])\<close> has room for seven.
\<close>

definition v7_bytes :: "64 word \<Rightarrow> 16 word \<Rightarrow> (nat \<Rightarrow> byte) \<Rightarrow> byte list" where
  "v7_bytes now seq f =
     [ucast (drop_bit 40 now), ucast (drop_bit 32 now), ucast (drop_bit 24 now),
      ucast (drop_bit 16 now), ucast (drop_bit 8 now), ucast now,
      push_bit 4 7 OR ucast (drop_bit 8 seq), ucast seq,
      (f 0 AND 0x3F) OR 0x80, f 1, f 2, f 3, f 4, f 5, f 6, f 7]"

section \<open>The hex codec\<close>

lemma of_char_less: "of_char c < (256::nat)"
  by (metis of_char_mod_256 mod_less_divisor zero_less_numeral)

lemma upt16: "[0..<16] = [0, 1, 2, 3, 4, 5, 6, 7, 8, 9, 10, 11, 12, 13, 14, 15]"
  by code_simp

lemma xvalues_length: "length xvalues = 256"
  by (simp add: xvalues_def)

lemma xvalues_unat_map:
  "map unat xvalues =
     map (\<lambda>n::nat. if 48 \<le> n \<and> n \<le> 57 then n - 48 else if 65 \<le> n \<and> n \<le> 70 then n - 55
                    else if 97 \<le> n \<and> n \<le> 102 then n - 87 else 255) [0..<256]"
  by code_simp

lemma xvalues_unat:
  assumes "n < 256"
  shows "unat (xvalues ! n) =
     (if 48 \<le> n \<and> n \<le> 57 then n - 48 else if 65 \<le> n \<and> n \<le> 70 then n - 55
      else if 97 \<le> n \<and> n \<le> 102 then n - 87 else 255)"
proof -
  have "unat (xvalues ! n) = map unat xvalues ! n"
    using assms xvalues_length by simp
  also have "\<dots> =
     (if 48 \<le> n \<and> n \<le> 57 then n - 48 else if 65 \<le> n \<and> n \<le> 70 then n - 55
      else if 97 \<le> n \<and> n \<le> 102 then n - 87 else 255)"
    unfolding xvalues_unat_map using assms by (simp del: upt_Suc)
  finally show ?thesis .
qed

lemma byte_eq_255: "((w::byte) = 255) = (unat w = 255)"
  by (simp add: word_unat_eq_iff)

lemma xvalues_is_hex: "(xvalues ! of_char c \<noteq> 255) = is_hex c"
  using xvalues_unat[OF of_char_less, of c] by (auto simp: is_hex_def byte_eq_255)

lemma xvalues_nibble: "xvalues ! of_char c \<noteq> 255 \<Longrightarrow> xvalues ! of_char c < 16"
  using xvalues_unat[OF of_char_less, of c]
  by (auto simp: byte_eq_255 word_less_nat_alt split: if_splits)

lemma xToByte_ok: "snd (xToByte x1 x2) = (is_hex x1 \<and> is_hex x2)"
  by (simp add: xToByte_def Let_def xvalues_is_hex)

lemma hyphen_not_hex: "\<not> is_hex CHR ''-''"
  by (simp add: is_hex_def)

lemma mask4: "(0xF::'a::len word) = mask 4"
  by (simp add: mask_eq_exp_minus_1)

lemma split_byte: "push_bit 4 (drop_bit 4 c) OR (c AND 0xF) = (c::byte)"
  unfolding mask4 by (rule bit_word_eqI) (auto simp add: bit_simps)

lemma digit_lookup_all: "list_all (\<lambda>n. xvalues ! of_char (ldigits ! n) = of_nat n) [0..<16]"
  by (simp add: upt16 ldigits_def xvalues_def)

lemma digit_lookup: "n < 16 \<Longrightarrow> xvalues ! of_char (ldigits ! n) = of_nat n"
  using digit_lookup_all unfolding list_all_iff by simp

lemma hi_nibble_less: "unat (drop_bit 4 (c::byte)) < 16"
proof -
  have "unat c < 256" using unsigned_less[of c] by simp
  then show ?thesis by (simp add: drop_bit_eq_div unat_div)
qed

lemma lo_nibble_less: "unat ((c::byte) AND 0xF) < 16"
  using word_and_le1[of c "0xF"] by (simp add: word_le_nat_alt)

lemma nibble_not_sentinel: "unat (w::byte) < 16 \<Longrightarrow> w \<noteq> 255"
  by auto

text \<open>Decoding the two digits \<open>%x\<close> writes for a byte gives the byte back.\<close>

lemma hex_pair: "xToByte (ldigits ! unat (drop_bit 4 c)) (ldigits ! unat (c AND 0xF)) = (c, True)"
  by (simp add: xToByte_def Let_def digit_lookup hi_nibble_less lo_nibble_less split_byte
      nibble_not_sentinel)

lemma nibble_mask: "(b::byte) < 16 \<Longrightarrow> b AND mask 4 = b"
  using less_mask_eq[of b 4] by simp

lemma disjoint_nibbles: "push_bit 4 (a::byte) AND (b AND mask 4) = 0"
  by (rule bit_word_eqI) (auto simp add: bit_simps)

lemma unat_push4: "unat (a::byte) < 16 \<Longrightarrow> unat (push_bit 4 a) = 16 * unat a"
  using unat_mult_lem[of a 16] by (simp add: push_bit_eq_mult)

lemma nibbles_value:
  assumes "(a::byte) < 16" "b < 16"
  shows "unat (push_bit 4 a OR b) = 16 * unat a + unat b"
proof -
  have a: "unat a < 16" and b: "unat b < 16"
    using assms by (simp_all add: word_less_nat_alt)
  have "push_bit 4 a AND b = 0"
    using disjoint_nibbles[of a b] nibble_mask[OF assms(2)] by simp
  then have "push_bit 4 a OR b = push_bit 4 a + b"
    by (simp add: disjunctive_add_eq_or)
  then show ?thesis
    using a b unat_push4[OF a] by (simp add: unat_word_ariths)
qed

text \<open>
  C9. The table \<open>xvalues\<close> has 256 entries; it maps the bytes \<open>'0'\<close> to \<open>'9'\<close> to 0 to 9,
  \<open>'A'\<close> to \<open>'F'\<close> and \<open>'a'\<close> to \<open>'f'\<close> to 10 to 15, and every other byte to the sentinel 255.
  \<open>xToByte x1 x2\<close> reports success exactly when neither lookup is the sentinel, and then the
  byte it returns is the first value shifted left by four bits OR'd with the second, that
  is, 16 times the first value plus the second.
\<close>

theorem xvalues_xToByte:
  "length xvalues = 256 \<and>
   (\<forall>c. xvalues ! of_char c =
      (if (of_char c :: nat) \<in> {of_char CHR ''0'' .. of_char CHR ''9''}
         then of_nat (of_char c - of_char CHR ''0'')
       else if (of_char c :: nat) \<in> {of_char CHR ''A'' .. of_char CHR ''F''}
         then of_nat (of_char c - of_char CHR ''A'' + 10)
       else if (of_char c :: nat) \<in> {of_char CHR ''a'' .. of_char CHR ''f''}
         then of_nat (of_char c - of_char CHR ''a'' + 10)
       else 255)) \<and>
   (\<forall>x1 x2. snd (xToByte x1 x2) =
      (xvalues ! of_char x1 \<noteq> 255 \<and> xvalues ! of_char x2 \<noteq> 255)) \<and>
   (\<forall>x1 x2. snd (xToByte x1 x2) \<longrightarrow>
      fst (xToByte x1 x2) = push_bit 4 (xvalues ! of_char x1) OR xvalues ! of_char x2 \<and>
      unat (fst (xToByte x1 x2)) =
        16 * unat (xvalues ! of_char x1) + unat (xvalues ! of_char x2))"
proof (intro conjI allI impI)
  show "length xvalues = 256" by (fact xvalues_length)
next
  fix c
  have "unat (xvalues ! of_char c) = unat
      (if (of_char c :: nat) \<in> {of_char CHR ''0'' .. of_char CHR ''9''}
         then of_nat (of_char c - of_char CHR ''0'')
       else if (of_char c :: nat) \<in> {of_char CHR ''A'' .. of_char CHR ''F''}
         then of_nat (of_char c - of_char CHR ''A'' + 10)
       else if (of_char c :: nat) \<in> {of_char CHR ''a'' .. of_char CHR ''f''}
         then of_nat (of_char c - of_char CHR ''a'' + 10)
       else (255 :: byte))"
  proof -
    have small: "unat (of_nat k :: byte) = k" if "k < 256" for k
      using that by (simp add: unat_of_nat)
    have lt: "(of_char c :: nat) < 256" by (fact of_char_less)
    show ?thesis
      using xvalues_unat[OF lt] small[of "of_char c - 48"] small[of "of_char c - 65 + 10"]
        small[of "of_char c - 97 + 10"] lt
      by (auto simp del: of_nat_diff of_nat_add)
  qed
  then show "xvalues ! of_char c =
      (if (of_char c :: nat) \<in> {of_char CHR ''0'' .. of_char CHR ''9''}
         then of_nat (of_char c - of_char CHR ''0'')
       else if (of_char c :: nat) \<in> {of_char CHR ''A'' .. of_char CHR ''F''}
         then of_nat (of_char c - of_char CHR ''A'' + 10)
       else if (of_char c :: nat) \<in> {of_char CHR ''a'' .. of_char CHR ''f''}
         then of_nat (of_char c - of_char CHR ''a'' + 10)
       else 255)"
    by (simp only: word_unat_eq_iff)
next
  fix x1 x2
  show "snd (xToByte x1 x2) = (xvalues ! of_char x1 \<noteq> 255 \<and> xvalues ! of_char x2 \<noteq> 255)"
    by (simp add: xToByte_def Let_def)
next
  fix x1 x2
  assume "snd (xToByte x1 x2)"
  then show "fst (xToByte x1 x2) = push_bit 4 (xvalues ! of_char x1) OR xvalues ! of_char x2"
    by (simp add: xToByte_def Let_def)
next
  fix x1 x2
  assume "snd (xToByte x1 x2)"
  then have "xvalues ! of_char x1 < 16" "xvalues ! of_char x2 < 16"
    by (simp_all add: xToByte_def Let_def xvalues_nibble)
  then show "unat (fst (xToByte x1 x2)) =
      16 * unat (xvalues ! of_char x1) + unat (xvalues ! of_char x2)"
    by (simp add: xToByte_def Let_def nibbles_value)
qed

theorem xvalues_xToByte_witness:
  "xvalues ! of_char CHR ''a'' = 10 \<and> xvalues ! of_char CHR ''G'' = 255 \<and>
   snd (xToByte CHR ''a'' CHR ''7'') \<and> unat (fst (xToByte CHR ''a'' CHR ''7'')) = 167 \<and>
   \<not> snd (xToByte CHR ''a'' CHR ''-'')"
proof -
  note table = xvalues_xToByte[THEN conjunct2, THEN conjunct1, THEN spec]
  note ok = xvalues_xToByte[THEN conjunct2, THEN conjunct2, THEN conjunct1, THEN spec, THEN spec]
  note val = xvalues_xToByte[THEN conjunct2, THEN conjunct2, THEN conjunct2, THEN spec,
      THEN spec, THEN mp, THEN conjunct2]
  have a: "xvalues ! of_char CHR ''a'' = 10" using table[of "CHR ''a''"] by simp
  have G: "xvalues ! of_char CHR ''G'' = 255" using table[of "CHR ''G''"] by simp
  have seven: "xvalues ! of_char CHR ''7'' = 7" using table[of "CHR ''7''"] by simp
  have hyphen: "xvalues ! of_char CHR ''-'' = 255" using table[of "CHR ''-''"] by simp
  have ok1: "snd (xToByte CHR ''a'' CHR ''7'')"
    using ok[of "CHR ''a''" "CHR ''7''"] a seven by simp
  have ok2: "\<not> snd (xToByte CHR ''a'' CHR ''-'')"
    using ok[of "CHR ''a''" "CHR ''-''"] hyphen by simp
  have "unat (fst (xToByte CHR ''a'' CHR ''7'')) = 167"
    using val[OF ok1] a seven by simp
  with a G ok1 ok2 show ?thesis by simp
qed

section \<open>Rendering and parsing\<close>

lemma zip_offsets:
  "zip [0..<16] offsets =
     [(0, 0), (1, 2), (2, 4), (3, 6), (4, 9), (5, 11), (6, 14), (7, 16), (8, 19), (9, 21),
      (10, 24), (11, 26), (12, 28), (13, 30), (14, 32), (15, 34)]"
  by (simp add: offsets_def upt16)

lemma replicate16: "replicate 16 x = [x, x, x, x, x, x, x, x, x, x, x, x, x, x, x, x]"
  by (simp add: eval_nat_numeral)

lemma update_numeral: "(x # xs)[numeral k := v] = x # xs[pred_numeral k := v]"
  by (simp add: numeral_eq_Suc)

lemma list16:
  "length (x::'a list) = 16 \<Longrightarrow>
   \<exists>b0 b1 b2 b3 b4 b5 b6 b7 b8 b9 b10 b11 b12 b13 b14 b15.
     x = [b0, b1, b2, b3, b4, b5, b6, b7, b8, b9, b10, b11, b12, b13, b14, b15]"
  by (auto simp: eval_nat_numeral length_Suc_conv)

lemma fmt_x_Nil: "fmt_x [] = []"
  by (simp add: fmt_x_def)

lemma fmt_x_Cons:
  "fmt_x (c # b) = ldigits ! unat (drop_bit 4 c) # ldigits ! unat (c AND 0xF) # fmt_x b"
  by (simp add: fmt_x_def)

lemma length_fmt_x: "length (fmt_x b) = 2 * length b"
  by (induction b) (simp_all add: fmt_x_Nil fmt_x_Cons)

lemma Sprintf_uuid16:
  "Sprintf_uuid [b0, b1, b2, b3, b4, b5, b6, b7, b8, b9, b10, b11, b12, b13, b14, b15] =
     fmt_x [b0, b1, b2, b3] @ CHR ''-'' # fmt_x [b4, b5] @ CHR ''-'' # fmt_x [b6, b7] @
     CHR ''-'' # fmt_x [b8, b9] @ CHR ''-'' # fmt_x [b10, b11, b12, b13, b14, b15]"
  by (simp add: Sprintf_uuid_def subslice_def)

lemma length_Sprintf_uuid: "length x = 16 \<Longrightarrow> length (Sprintf_uuid x) = 36"
  by (simp add: Sprintf_uuid_def subslice_def length_fmt_x)

lemma parse_body_rendered:
  "parse_body (Sprintf_uuid [b0, b1, b2, b3, b4, b5, b6, b7, b8, b9, b10, b11, b12, b13, b14, b15] @ rest) (replicate 16 0) =
   ([b0, b1, b2, b3, b4, b5, b6, b7, b8, b9, b10, b11, b12, b13, b14, b15], None)"
  unfolding Sprintf_uuid16
  by (simp add: parse_body_def zip_offsets fmt_x_Cons fmt_x_Nil hex_pair replicate16 update_numeral)

lemma decode32_rendered:
  "decode32 (fmt_x [b0, b1, b2, b3, b4, b5, b6, b7, b8, b9, b10, b11, b12, b13, b14, b15]) [0..<16] (replicate 16 0) =
   ([b0, b1, b2, b3, b4, b5, b6, b7, b8, b9, b10, b11, b12, b13, b14, b15], None)"
  by (simp add: upt16 fmt_x_Cons fmt_x_Nil hex_pair replicate16 update_numeral)

lemma EqualFold_refl: "EqualFold s s"
  by (simp add: EqualFold_def)

lemma UUIDfromString_Sprintf:
  assumes "length x = 16"
  shows "UUIDfromString (Sprintf_uuid x) = (x, None)"
proof -
  obtain b0 b1 b2 b3 b4 b5 b6 b7 b8 b9 b10 b11 b12 b13 b14 b15
    where x: "x = [b0, b1, b2, b3, b4, b5, b6, b7, b8, b9, b10, b11, b12, b13, b14, b15]"
    using list16[OF assms] by blast
  have "parse_body (Sprintf_uuid x @ []) (replicate 16 0) = (x, None)"
    unfolding x by (rule parse_body_rendered)
  then show ?thesis
    using assms by (simp add: UUIDfromString_def length_Sprintf_uuid)
qed

lemma renders_versionI:
  "length u = 16 \<Longrightarrow> version_of u = v \<Longrightarrow> variant_of u = 2 \<Longrightarrow>
   renders_version (Sprintf_uuid u) v"
  by (simp add: renders_version_def UUIDfromString_Sprintf)

text \<open>
  C4. Parsing any of the four renderings of a 16-byte value gives that value back: the
  canonical lowercase hyphenated form that the generators write, the 32 hexadecimal digits
  without hyphens, the canonical form in braces, and the canonical form after \<open>urn:uuid:\<close>.
  This holds for every 16-byte value, so for every identifier a generator produces.
\<close>

theorem parse_render_roundtrip:
  assumes "length x = 16"
  shows "UUIDfromString (Sprintf_uuid x) = (x, None) \<and>
         UUIDfromString (fmt_x x) = (x, None) \<and>
         UUIDfromString (''{'' @ Sprintf_uuid x @ ''}'') = (x, None) \<and>
         UUIDfromString (''urn:uuid:'' @ Sprintf_uuid x) = (x, None)"
proof -
  obtain b0 b1 b2 b3 b4 b5 b6 b7 b8 b9 b10 b11 b12 b13 b14 b15
    where x: "x = [b0, b1, b2, b3, b4, b5, b6, b7, b8, b9, b10, b11, b12, b13, b14, b15]"
    using list16[OF assms] by blast
  have len: "length (Sprintf_uuid x) = 36" "length (fmt_x x) = 32"
    using assms by (simp_all add: length_Sprintf_uuid length_fmt_x)
  have body: "parse_body (Sprintf_uuid x @ rest) (replicate 16 0) = (x, None)" for rest
    unfolding x by (rule parse_body_rendered)
  have "UUIDfromString (Sprintf_uuid x) = (x, None)"
    using body[of "[]"] len by (simp add: UUIDfromString_def)
  moreover have "UUIDfromString (fmt_x x) = (x, None)"
    using decode32_rendered len unfolding x by (simp add: UUIDfromString_def)
  moreover have "UUIDfromString (''{'' @ Sprintf_uuid x @ ''}'') = (x, None)"
    using body[of "''}''"] len by (simp add: UUIDfromString_def)
  moreover have "UUIDfromString (''urn:uuid:'' @ Sprintf_uuid x) = (x, None)"
    using body[of "[]"] len by (simp add: UUIDfromString_def EqualFold_refl)
  ultimately show ?thesis by simp
qed

theorem parse_render_roundtrip_witness:
  "length [0, 0, 0, 0, 0, 0, 0x10, 0, 0x80, 0, 0, 0, 0, 0, 0, 0xab :: byte] = 16 \<and>
   Sprintf_uuid [0, 0, 0, 0, 0, 0, 0x10, 0, 0x80, 0, 0, 0, 0, 0, 0, 0xab] =
     ''00000000-0000-1000-8000-0000000000ab'' \<and>
   UUIDfromString ''00000000-0000-1000-8000-0000000000ab'' =
     ([0, 0, 0, 0, 0, 0, 0x10, 0, 0x80, 0, 0, 0, 0, 0, 0, 0xab], None) \<and>
   UUIDfromString ''000000000000100080000000000000ab'' =
     ([0, 0, 0, 0, 0, 0, 0x10, 0, 0x80, 0, 0, 0, 0, 0, 0, 0xab], None) \<and>
   UUIDfromString ''{00000000-0000-1000-8000-0000000000ab}'' =
     ([0, 0, 0, 0, 0, 0, 0x10, 0, 0x80, 0, 0, 0, 0, 0, 0, 0xab], None) \<and>
   UUIDfromString ''urn:uuid:00000000-0000-1000-8000-0000000000ab'' =
     ([0, 0, 0, 0, 0, 0, 0x10, 0, 0x80, 0, 0, 0, 0, 0, 0, 0xab], None)"
proof -
  have r: "Sprintf_uuid [0, 0, 0, 0, 0, 0, 0x10, 0, 0x80, 0, 0, 0, 0, 0, 0, 0xab] =
     ''00000000-0000-1000-8000-0000000000ab''"
    by (simp add: Sprintf_uuid16 fmt_x_Cons fmt_x_Nil ldigits_def)
  have h: "fmt_x [0, 0, 0, 0, 0, 0, 0x10, 0, 0x80, 0, 0, 0, 0, 0, 0, 0xab] =
     ''000000000000100080000000000000ab''"
    by (simp add: fmt_x_Cons fmt_x_Nil ldigits_def)
  show ?thesis
    using parse_render_roundtrip[of "[0, 0, 0, 0, 0, 0, 0x10, 0, 0x80, 0, 0, 0, 0, 0, 0, 0xab]"]
    unfolding r h by simp
qed

section \<open>What the parser accepts\<close>

lemma decode36_ok:
  "(snd (decode36 s ps u) = None) = (\<forall>(i, x)\<in>set ps. is_hex (s ! x) \<and> is_hex (s ! (x + 1)))"
  by (induction ps arbitrary: u) (auto simp: xToByte_ok[symmetric] split: prod.splits)

lemma all_less36: "(\<forall>i<36. P i) = list_all P [0..<36]"
  by (auto simp: list_all_iff)

lemma upt36: "[0..<36] = [0, 1, 2, 3, 4, 5, 6, 7, 8, 9, 10, 11, 12, 13, 14, 15, 16, 17, 18, 19, 20, 21, 22, 23, 24, 25, 26, 27, 28, 29, 30, 31, 32, 33, 34, 35]"
  by code_simp

lemma canonical_shape_iff:
  "canonical_shape body =
     (length body = 36 \<and>
      (\<forall>i<36. if i \<in> {8, 13, 18, 23} then body ! i = CHR ''-'' else is_hex (body ! i)))"
  unfolding canonical_shape_def all_less36 ..

lemma canonical_shape36:
  assumes "36 \<le> length s"
  shows "canonical_shape (take 36 s) = shape36 s"
proof -
  have "canonical_shape (take 36 s) =
     list_all (\<lambda>i. if i \<in> {8, 13, 18, 23} then s ! i = CHR ''-'' else is_hex (s ! i)) [0..<36]"
    using assms unfolding canonical_shape_iff all_less36[symmetric] by auto
  then show ?thesis
    unfolding upt36 shape36_def by simp
qed

lemma decode36_offsets:
  "(snd (decode36 s (zip [0..<16] offsets) u) = None) =
     list_all (\<lambda>i. is_hex (s ! i))
       [0, 1, 2, 3, 4, 5, 6, 7, 9, 10, 11, 12, 14, 15, 16, 17, 19, 20, 21, 22,
        24, 25, 26, 27, 28, 29, 30, 31, 32, 33, 34, 35]"
  unfolding decode36_ok zip_offsets by simp

lemma parse_body_hyphens:
  "(snd (parse_body s u) = None) =
     (s ! 8 = CHR ''-'' \<and> s ! 13 = CHR ''-'' \<and> s ! 18 = CHR ''-'' \<and> s ! 23 = CHR ''-'' \<and>
      snd (decode36 s (zip [0..<16] offsets) u) = None)"
  by (auto simp: parse_body_def)

lemma parse_body36: "(snd (parse_body s u) = None) = shape36 s"
  unfolding parse_body_hyphens decode36_offsets shape36_def by (simp add: conj_ac)

lemma parse_body_ok:
  "36 \<le> length s \<Longrightarrow> (snd (parse_body s u) = None) = canonical_shape (take 36 s)"
  by (simp add: parse_body36 canonical_shape36)


lemma upt32: "[0..<32] = [0, 1, 2, 3, 4, 5, 6, 7, 8, 9, 10, 11, 12, 13, 14, 15, 16, 17, 18, 19, 20, 21, 22, 23, 24, 25, 26, 27, 28, 29, 30, 31]"
  by code_simp

lemma all_less32: "(\<forall>i<32. P i) = list_all P [0..<32]"
  by (auto simp: list_all_iff)

lemma decode32_ok:
  "(snd (decode32 s js u) = None) = (\<forall>i\<in>set js. is_hex (s ! (i * 2)) \<and> is_hex (s ! (i * 2 + 1)))"
  by (induction js arbitrary: u) (auto simp: xToByte_ok[symmetric] Let_def split: prod.splits)

lemma decode32_ok_iff:
  "(snd (decode32 s [0..<16] u) = None) = (\<forall>k<32. is_hex (s ! k))"
  unfolding decode32_ok all_less32 upt32 by (simp add: upt16)

lemma UUIDfromString_32:
  "length s = 32 \<Longrightarrow> UUIDfromString s = decode32 s [0..<16] (replicate 16 0)"
  by (simp add: UUIDfromString_def Let_def)

lemma UUIDfromString_36:
  "length s = 36 \<Longrightarrow> UUIDfromString s = parse_body s (replicate 16 0)"
  by (simp add: UUIDfromString_def Let_def)

lemma UUIDfromString_38:
  "length s = 38 \<Longrightarrow> UUIDfromString s = parse_body (drop 1 s) (replicate 16 0)"
  by (simp add: UUIDfromString_def Let_def)

lemma UUIDfromString_45:
  "length s = 45 \<Longrightarrow> UUIDfromString s =
     (if \<not> EqualFold (take 9 s) ''urn:uuid:''
      then (replicate 16 0, Some (WrongURNPrefix (take 9 s)))
      else parse_body (drop 9 s) (replicate 16 0))"
  by (simp add: UUIDfromString_def Let_def)

lemma UUIDfromString_other:
  "length s \<notin> {32, 36, 38, 45} \<Longrightarrow>
   UUIDfromString s = (replicate 16 0, Some (WrongUUIDLength (length s)))"
  by (simp add: UUIDfromString_def Let_def)

lemma UUIDfromString_ok_iff:
  "(snd (UUIDfromString s) = None) =
     (length s = 32 \<and> (\<forall>k<32. is_hex (s ! k)) \<or>
      length s \<in> {36, 38} \<and> canonical_shape (unwrapped_body s) \<or>
      length s = 45 \<and> EqualFold (take 9 s) ''urn:uuid:'' \<and> canonical_shape (unwrapped_body s))"
proof -
  consider "length s = 32" | "length s = 36" | "length s = 38" | "length s = 45"
    | "length s \<notin> {32, 36, 38, 45}" by auto
  then show ?thesis
  proof cases
    case 1
    then show ?thesis by (simp add: UUIDfromString_32 decode32_ok_iff)
  next
    case 2
    then show ?thesis by (simp add: UUIDfromString_36 parse_body_ok unwrapped_body_def)
  next
    case 3
    then show ?thesis by (simp add: UUIDfromString_38 parse_body_ok unwrapped_body_def)
  next
    case 4
    then show ?thesis by (simp add: UUIDfromString_45 parse_body_ok unwrapped_body_def)
  next
    case 5
    then show ?thesis by (simp add: UUIDfromString_other)
  qed
qed

lemma decode36_cong:
  "(\<forall>(i, x)\<in>set ps. s ! x = t ! x \<and> s ! (x + 1) = t ! (x + 1)) \<Longrightarrow>
   decode36 s ps u = decode36 t ps u"
  by (induction ps arbitrary: u) (auto split: prod.splits)

lemma parse_body_cong:
  assumes "\<forall>i<36. s ! i = t ! i"
  shows "parse_body s u = parse_body t u"
proof -
  have "decode36 s (zip [0..<16] offsets) u = decode36 t (zip [0..<16] offsets) u"
    by (rule decode36_cong) (simp add: zip_offsets assms)
  then show ?thesis
    using assms by (simp add: parse_body_def)
qed

lemma length_decode36: "length (fst (decode36 s ps u)) = length u"
  by (induction ps arbitrary: u) (auto split: prod.splits)

lemma length_decode32: "length (fst (decode32 s js u)) = length u"
  by (induction js arbitrary: u) (auto simp: Let_def split: prod.splits)

lemma length_parse_body: "length (fst (parse_body s u)) = length u"
  by (simp add: parse_body_def length_decode36)

lemma length_UUIDfromString: "length (fst (UUIDfromString s)) = 16"
  by (simp add: UUIDfromString_def Let_def length_parse_body length_decode32)

lemma decode32_bytes_eq:
  "i \<le> 16 \<Longrightarrow> decode32_bytes b (2 * i) u = decode32 b [i..<16] u"
proof (induction "16 - i" arbitrary: i u)
  case 0
  then have "i = 16" by simp
  then show ?case by (simp add: decode32_bytes.simps[of b 32])
next
  case (Suc n)
  then have i: "i < 16" by simp
  then have upt: "[i..<16] = i # [Suc i..<16]" by (simp add: upt_conv_Cons)
  have IH: "decode32_bytes b (Suc (Suc (i * 2))) u' = decode32 b [Suc i..<16] u'" for u'
    using Suc.hyps(1)[of "Suc i" u'] Suc.hyps(2) i by (simp add: mult.commute)
  show ?case
    unfolding upt using i
    by (subst decode32_bytes.simps) (simp add: IH Let_def mult.commute split: prod.splits)
qed

lemma EqualFold_length: "EqualFold s t \<Longrightarrow> length s = length t"
  unfolding EqualFold_def by (rule map_eq_imp_length_eq)

lemma UUIDfromBytes_45:
  assumes "length b = 45"
  shows "UUIDfromBytes b = (replicate 16 0, Some (WrongURNPrefixBytes (take 9 b)))"
proof -
  have "\<not> EqualFold (take 9 b) ''urn:uuid''"
    using EqualFold_length[of "take 9 b" "''urn:uuid''"] assms by auto
  then show ?thesis
    using assms by (simp add: UUIDfromBytes_def Let_def)
qed

lemma UUIDfromBytes_agrees:
  "length b \<noteq> 45 \<Longrightarrow>
   fst (UUIDfromBytes b) = fst (UUIDfromString b) \<and>
   (snd (UUIDfromBytes b) = None) = (snd (UUIDfromString b) = None)"
  using decode32_bytes_eq[of 0 b] by (simp add: UUIDfromBytes_def UUIDfromString_def Let_def)

lemma canonical_hyphens:
  assumes "canonical_shape body" "i < 36"
  shows "(body ! i = CHR ''-'') = (i \<in> {8, 13, 18, 23})"
proof (cases "i \<in> {8, 13, 18, 23}")
  case True
  then show ?thesis using assms unfolding canonical_shape_iff by auto
next
  case False
  then have "is_hex (body ! i)"
    using assms unfolding canonical_shape_iff by (metis (full_types))
  then have "body ! i \<noteq> CHR ''-''" using hyphen_not_hex by auto
  then show ?thesis using False by simp
qed

text \<open>
  C5. An input whose length is not 32, 36, 38 or 45 is rejected with the wrong-length
  error and the all-zero array (nothing is decoded). A hyphenated input (length 36, 38 or
  45) that parses has hyphens at exactly the positions 8, 13, 18 and 23 of its unwrapped
  36-character body. So a 35-character string, a 36-character string with a misplaced
  hyphen, a string with a character that is not a hexadecimal digit inside a field, and a
  45-character string starting with \<open>urn:uudi:\<close> are all rejected with an error.
\<close>

theorem UUIDfromString_rejects:
  "(length s \<notin> {32, 36, 38, 45} \<longrightarrow>
      UUIDfromString s = (replicate 16 0, Some (WrongUUIDLength (length s)))) \<and>
   (length s \<in> {36, 38, 45} \<and> snd (UUIDfromString s) = None \<longrightarrow>
      (\<forall>i<36. (unwrapped_body s ! i = CHR ''-'') = (i \<in> {8, 13, 18, 23}))) \<and>
   (length s = 35 \<longrightarrow> UUIDfromString s = (replicate 16 0, Some (WrongUUIDLength 35))) \<and>
   (length s = 36 \<and> (\<exists>i<36. (s ! i = CHR ''-'') \<noteq> (i \<in> {8, 13, 18, 23})) \<longrightarrow>
      snd (UUIDfromString s) \<noteq> None) \<and>
   (length s = 32 \<and> (\<exists>i<32. \<not> is_hex (s ! i)) \<longrightarrow> snd (UUIDfromString s) \<noteq> None) \<and>
   (length s \<in> {36, 38, 45} \<and> (\<exists>i<36. i \<notin> {8, 13, 18, 23} \<and> \<not> is_hex (unwrapped_body s ! i)) \<longrightarrow>
      snd (UUIDfromString s) \<noteq> None) \<and>
   (length s = 45 \<and> take 9 s = ''urn:uudi:'' \<longrightarrow>
      UUIDfromString s = (replicate 16 0, Some (WrongURNPrefix ''urn:uudi:'')))"
proof (intro conjI impI)
  assume "length s \<notin> {32, 36, 38, 45}"
  then show "UUIDfromString s = (replicate 16 0, Some (WrongUUIDLength (length s)))"
    by (rule UUIDfromString_other)
next
  assume "length s \<in> {36, 38, 45} \<and> snd (UUIDfromString s) = None"
  then have "canonical_shape (unwrapped_body s)"
    unfolding UUIDfromString_ok_iff by auto
  then show "\<forall>i<36. (unwrapped_body s ! i = CHR ''-'') = (i \<in> {8, 13, 18, 23})"
    using canonical_hyphens by blast
next
  assume "length s = 35"
  then show "UUIDfromString s = (replicate 16 0, Some (WrongUUIDLength 35))"
    using UUIDfromString_other[of s] by simp
next
  assume a: "length s = 36 \<and> (\<exists>i<36. (s ! i = CHR ''-'') \<noteq> (i \<in> {8, 13, 18, 23}))"
  then have "unwrapped_body s = s" by (simp add: unwrapped_body_def)
  then have "\<not> canonical_shape (unwrapped_body s)"
    using a canonical_hyphens[of s] by auto
  then show "snd (UUIDfromString s) \<noteq> None"
    using a unfolding UUIDfromString_ok_iff by simp
next
  assume "length s = 32 \<and> (\<exists>i<32. \<not> is_hex (s ! i))"
  then show "snd (UUIDfromString s) \<noteq> None"
    unfolding UUIDfromString_ok_iff by auto
next
  assume a: "length s \<in> {36, 38, 45} \<and>
    (\<exists>i<36. i \<notin> {8, 13, 18, 23} \<and> \<not> is_hex (unwrapped_body s ! i))"
  then have "\<not> canonical_shape (unwrapped_body s)"
    unfolding canonical_shape_iff by (metis (full_types))
  then show "snd (UUIDfromString s) \<noteq> None"
    using a unfolding UUIDfromString_ok_iff by auto
next
  assume a: "length s = 45 \<and> take 9 s = ''urn:uudi:''"
  have "\<not> EqualFold ''urn:uudi:'' ''urn:uuid:''"
    by (simp add: EqualFold_def lowerASCII_def)
  then show "UUIDfromString s = (replicate 16 0, Some (WrongURNPrefix ''urn:uudi:''))"
    using a by (simp add: UUIDfromString_45)
qed

lemma canonical_example: "canonical_shape ''00000000-0000-1000-8000-0000000000ab''"
  using canonical_shape36[of "''00000000-0000-1000-8000-0000000000ab''"]
  by (simp add: shape36_def is_hex_def)

theorem UUIDfromString_rejects_witness:
  "UUIDfromString ''00000000-0000-1000-8000-00000000000'' =
     (replicate 16 0, Some (WrongUUIDLength 35)) \<and>
   snd (UUIDfromString ''000000000-000-1000-8000-000000000000'') \<noteq> None \<and>
   snd (UUIDfromString ''0000000g-0000-1000-8000-000000000000'') \<noteq> None \<and>
   snd (UUIDfromString ''0000000g000010008000000000000000'') \<noteq> None \<and>
   UUIDfromString ''urn:uudi:00000000-0000-1000-8000-000000000000'' =
     (replicate 16 0, Some (WrongURNPrefix ''urn:uudi:'')) \<and>
   snd (UUIDfromString ''00000000-0000-1000-8000-0000000000ab'') = None \<and>
   ''00000000-0000-1000-8000-0000000000ab'' ! 8 = CHR ''-''"
proof -
  note r = UUIDfromString_rejects
  have 1: "UUIDfromString ''00000000-0000-1000-8000-00000000000'' =
     (replicate 16 0, Some (WrongUUIDLength 35))"
    using r[of "''00000000-0000-1000-8000-00000000000''"] by simp
  have "\<exists>i<36. (''000000000-000-1000-8000-000000000000'' ! i = CHR ''-'') \<noteq> (i \<in> {8, 13, 18, 23})"
    by (rule exI[of _ 8]) simp
  then have 2: "snd (UUIDfromString ''000000000-000-1000-8000-000000000000'') \<noteq> None"
    using r[of "''000000000-000-1000-8000-000000000000''"] by simp
  have "\<exists>i<36. i \<notin> {8, 13, 18, 23} \<and>
      \<not> is_hex (unwrapped_body ''0000000g-0000-1000-8000-000000000000'' ! i)"
    by (rule exI[of _ 7]) (simp add: unwrapped_body_def is_hex_def)
  then have 3: "snd (UUIDfromString ''0000000g-0000-1000-8000-000000000000'') \<noteq> None"
    using r[of "''0000000g-0000-1000-8000-000000000000''"] by simp
  have "\<exists>i<32. \<not> is_hex (''0000000g000010008000000000000000'' ! i)"
    by (rule exI[of _ 7]) (simp add: is_hex_def)
  then have 4: "snd (UUIDfromString ''0000000g000010008000000000000000'') \<noteq> None"
    using r[of "''0000000g000010008000000000000000''"] by simp
  have 5: "UUIDfromString ''urn:uudi:00000000-0000-1000-8000-000000000000'' =
     (replicate 16 0, Some (WrongURNPrefix ''urn:uudi:''))"
    using r[of "''urn:uudi:00000000-0000-1000-8000-000000000000''"] by simp
  have 6: "snd (UUIDfromString ''00000000-0000-1000-8000-0000000000ab'') = None"
    using canonical_example by (simp add: UUIDfromString_ok_iff unwrapped_body_def)
  then have 7: "''00000000-0000-1000-8000-0000000000ab'' ! 8 = CHR ''-''"
    using r[of "''00000000-0000-1000-8000-0000000000ab''"] by (simp add: unwrapped_body_def)
  from 1 2 3 4 5 6 7 show ?thesis by blast
qed

lemma wrapped_any:
  assumes "length x = 16"
  shows "UUIDfromString (a # Sprintf_uuid x @ [b]) = (x, None)"
proof -
  obtain b0 b1 b2 b3 b4 b5 b6 b7 b8 b9 b10 b11 b12 b13 b14 b15
    where x: "x = [b0, b1, b2, b3, b4, b5, b6, b7, b8, b9, b10, b11, b12, b13, b14, b15]"
    using list16[OF assms] by blast
  have "parse_body (Sprintf_uuid x @ [b]) (replicate 16 0) = (x, None)"
    unfolding x by (rule parse_body_rendered)
  then show ?thesis
    using assms by (simp add: UUIDfromString_38 length_Sprintf_uuid)
qed

lemma Sprintf_example:
  "Sprintf_uuid [0, 0, 0, 0, 0, 0, 0x10, 0, 0x80, 0, 0, 0, 0, 0, 0, 0xab] =
     ''00000000-0000-1000-8000-0000000000ab''"
  by (simp add: Sprintf_uuid16 fmt_x_Cons fmt_x_Nil ldigits_def)

text \<open>
  C7, as stated, fails: a 38-character input whose first and last characters are not
  braces is accepted.
\<close>

theorem braces_not_checked_counterexample:
  "length ''x00000000-0000-1000-8000-0000000000aby'' = 38 \<and>
   hd ''x00000000-0000-1000-8000-0000000000aby'' \<noteq> CHR ''{'' \<and>
   last ''x00000000-0000-1000-8000-0000000000aby'' \<noteq> CHR ''}'' \<and>
   UUIDfromString ''x00000000-0000-1000-8000-0000000000aby'' =
     ([0, 0, 0, 0, 0, 0, 0x10, 0, 0x80, 0, 0, 0, 0, 0, 0, 0xab], None)"
  using wrapped_any[of "[0, 0, 0, 0, 0, 0, 0x10, 0, 0x80, 0, 0, 0, 0, 0, 0, 0xab]" "CHR ''x''" "CHR ''y''"]
  unfolding Sprintf_example by simp

text \<open>
  C7, amended. A 38-character input parses exactly when its characters 1 to 36 have the
  canonical hyphenated shape; the first and the last character are not examined, so
  replacing them by any other characters changes nothing (braces are accepted, not
  required).
\<close>

theorem UUIDfromString_38_accepts:
  assumes "length s = 38"
  shows "(snd (UUIDfromString s) = None) = canonical_shape (take 36 (drop 1 s)) \<and>
         (\<forall>a b. UUIDfromString (a # take 36 (drop 1 s) @ [b]) = UUIDfromString s)"
proof
  show "(snd (UUIDfromString s) = None) = canonical_shape (take 36 (drop 1 s))"
    using assms by (simp add: UUIDfromString_ok_iff unwrapped_body_def)
next
  show "\<forall>a b. UUIDfromString (a # take 36 (drop 1 s) @ [b]) = UUIDfromString s"
  proof (intro allI)
    fix a b
    have "parse_body (take 36 (drop 1 s) @ [b]) u = parse_body (drop 1 s) u" for u
      by (rule parse_body_cong) (use assms in \<open>simp add: nth_append\<close>)
    then show "UUIDfromString (a # take 36 (drop 1 s) @ [b]) = UUIDfromString s"
      using assms by (simp add: UUIDfromString_38)
  qed
qed

theorem UUIDfromString_38_accepts_witness:
  "length ''{00000000-0000-1000-8000-0000000000ab}'' = 38 \<and>
   snd (UUIDfromString ''{00000000-0000-1000-8000-0000000000ab}'') = None \<and>
   UUIDfromString ''x00000000-0000-1000-8000-0000000000aby'' =
     UUIDfromString ''{00000000-0000-1000-8000-0000000000ab}''"
  using UUIDfromString_38_accepts[of "''{00000000-0000-1000-8000-0000000000ab}''"]
    canonical_example
  by simp

text \<open>
  C10 fails on the code: \<open>UUIDfromBytes\<close> compares the nine-byte prefix with the
  eight-byte literal \<open>urn:uuid\<close>, which never matches, so it rejects the URN form that
  \<open>UUIDfromString\<close> accepts.
\<close>

theorem UUIDfromBytes_rejects_urn:
  "UUIDfromString ''urn:uuid:00000000-0000-1000-8000-0000000000ab'' =
     ([0, 0, 0, 0, 0, 0, 0x10, 0, 0x80, 0, 0, 0, 0, 0, 0, 0xab], None) \<and>
   UUIDfromBytes ''urn:uuid:00000000-0000-1000-8000-0000000000ab'' =
     (replicate 16 0, Some (WrongURNPrefixBytes ''urn:uuid:''))"
proof -
  have "parse_body (Sprintf_uuid [0, 0, 0, 0, 0, 0, 0x10, 0, 0x80, 0, 0, 0, 0, 0, 0, 0xab] @ [])
      (replicate 16 0) = ([0, 0, 0, 0, 0, 0, 0x10, 0, 0x80, 0, 0, 0, 0, 0, 0, 0xab], None)"
    by (rule parse_body_rendered)
  then have "UUIDfromString ''urn:uuid:00000000-0000-1000-8000-0000000000ab'' =
     ([0, 0, 0, 0, 0, 0, 0x10, 0, 0x80, 0, 0, 0, 0, 0, 0, 0xab], None)"
    unfolding Sprintf_example by (simp add: UUIDfromString_45 EqualFold_refl)
  moreover have "UUIDfromBytes ''urn:uuid:00000000-0000-1000-8000-0000000000ab'' =
     (replicate 16 0, Some (WrongURNPrefixBytes ''urn:uuid:''))"
    using UUIDfromBytes_45[of "''urn:uuid:00000000-0000-1000-8000-0000000000ab''"] by simp
  ultimately show ?thesis by simp
qed

section \<open>Version, variant and sequence bits\<close>

lemma mask6: "(0x3F::'a::len word) = mask 6" by (simp add: mask_eq_exp_minus_1)
lemma mask8: "(0xFF::'a::len word) = mask 8" by (simp add: mask_eq_exp_minus_1)
lemma mask12: "(0x0FFF::'a::len word) = mask 12" by (simp add: mask_eq_exp_minus_1)
lemma mask14: "(0x3FFF::'a::len word) = mask 14" by (simp add: mask_eq_exp_minus_1)
lemma bit6: "(0x40::'a::len word) = push_bit 6 1" by simp
lemma bit7: "(0x80::'a::len word) = push_bit 7 1" by simp
lemma bit12: "(0x1000::'a::len word) = push_bit 12 1" by simp
lemma seven4: "(0x70::'a::len word) = push_bit 4 7" by simp
lemma seven: "(7::'a::len word) = mask 3" by (simp add: mask_eq_exp_minus_1)

lemma version4_bits: "drop_bit 4 (((c::byte) AND 0x0f) OR 0x40) = 4"
proof -
  have "drop_bit 4 ((c AND mask 4) OR push_bit 6 1) = (push_bit 2 1 :: byte)"
    by (rule bit_word_eqI) (auto simp add: bit_simps simp del: push_bit_of_1)
  then show ?thesis by (simp add: mask4)
qed

lemma variant_bits: "drop_bit 6 (((c::byte) AND 0x3f) OR 0x80) = 2"
proof -
  have "drop_bit 6 ((c AND mask 6) OR push_bit 7 1) = (push_bit 1 1 :: byte)"
    by (rule bit_word_eqI) (auto simp add: bit_simps simp del: push_bit_of_1)
  then show ?thesis by (simp add: mask6)
qed

lemma version1_bits:
  "drop_bit 4 (ucast (drop_bit 8 ((ucast (drop_bit 48 (ts::64 word) AND 0x0FFF) :: 16 word) OR 0x1000)) :: byte) = 1"
  unfolding mask12 bit12
  by (rule bit_word_eqI) (auto simp add: bit_simps simp del: push_bit_of_1)

lemma variant1_bits:
  "drop_bit 6 ((ucast (drop_bit 8 (cs::16 word) AND 0x3F) :: byte) OR 0x80) = 2"
proof -
  have "drop_bit 6 ((ucast (drop_bit 8 cs AND mask 6) :: byte) OR push_bit 7 1) = push_bit 1 1"
    by (rule bit_word_eqI) (auto simp add: bit_simps simp del: push_bit_of_1)
  then show ?thesis by (simp add: mask6)
qed

lemma seq12: "(c::16 word) \<le> 0x0FFF \<Longrightarrow> c AND mask 12 = c"
  using less_mask_eq[of c 12] by (simp add: word_le_nat_alt word_less_nat_alt)

lemma version7_bits:
  assumes "(c::16 word) \<le> 0x0FFF"
  shows "drop_bit 4 ((push_bit 4 7 :: byte) OR ucast (drop_bit 8 c)) = 7"
proof -
  have "drop_bit 4 ((push_bit 4 (mask 3) :: byte) OR ucast (drop_bit 8 (c AND mask 12))) = mask 3"
    by (rule bit_word_eqI) (auto simp add: bit_simps)
  then show ?thesis by (simp add: seq12[OF assms] seven)
qed

lemma sequence_bits:
  assumes "(c::16 word) \<le> 0x0FFF"
  shows "push_bit 8 (ucast (((push_bit 4 7 :: byte) OR ucast (drop_bit 8 c)) AND 0x0F)) OR ucast (ucast c :: byte) = c"
proof -
  have "push_bit 8 (ucast (((push_bit 4 (mask 3) :: byte) OR ucast (drop_bit 8 (c AND mask 12))) AND mask 4)) OR ucast (ucast (c AND mask 12) :: byte) = c AND mask 12"
    by (rule bit_word_eqI) (auto simp add: bit_simps)
  then show ?thesis by (simp add: seq12[OF assms] seven mask4)
qed

section \<open>The version 7 generator\<close>

lemma upt10: "[0..<10] = [0, 1, 2, 3, 4, 5, 6, 7, 8, 9]"
  by code_simp

lemma upt2: "[0..<2] = [0, 1]"
  by code_simp

lemma length_v7_bytes: "length (v7_bytes now seq f) = 16"
  by (simp add: v7_bytes_def)

lemma v7_build:
  "copy ((PutUint48 (replicate 16 0) 0 now)[6 := b6, 7 := b7, 8 := b8]) 9 16 (drop (Suc 0) (map f [0..<10])) =
   [ucast (drop_bit 40 now), ucast (drop_bit 32 now), ucast (drop_bit 24 now),
      ucast (drop_bit 16 now), ucast (drop_bit 8 now), ucast now, b6, b7, b8,
      f 1, f 2, f 3, f 4, f 5, f 6, f 7]"
  by (simp add: copy_def PutUint48_def replicate16 update_numeral upt10)

lemma be_step:
  "push_bit 8 (take_bit k (drop_bit (m + 8) w)) OR ucast (ucast (drop_bit m w) :: byte) =
   take_bit (k + 8) (drop_bit m (w::64 word))"
  by (rule bit_word_eqI) (auto simp add: bit_simps)

lemma be_read48:
  "foldl (\<lambda>acc b. push_bit 8 acc OR ucast b) 0
     [ucast (drop_bit 40 now) :: byte, ucast (drop_bit 32 now), ucast (drop_bit 24 now),
      ucast (drop_bit 16 now), ucast (drop_bit 8 now), ucast now] = take_bit 48 (now::64 word)"
  using be_step[of 0 40 now] be_step[of 8 32 now] be_step[of 16 24 now] be_step[of 24 16 now]
    be_step[of 32 8 now] be_step[of 40 0 now]
  by simp

lemma timestamp_field_v7: "timestamp_field (v7_bytes now seq f) = take_bit 48 now"
  unfolding timestamp_field_def v7_bytes_def using be_read48[of now] by simp

lemma rand_Read_2: "rand_Read (Entropy f) 2 = ([f 0, f 1], None)"
  by (simp add: rand_Read_def upt2)

lemma rand_Read_fails: "rand_Read (EntropyFails err) n = (replicate n 0, Some err)"
  by (simp add: rand_Read_def)

text \<open>
  \<open>NewV7\<close> by cases: the counter after the millisecond check, then the counter branch or
  the rollover branch, then the outcome of the random reads.
\<close>

lemma NewV7_counter:
  assumes "(if now \<noteq> LastMillis g then 0 else Counter g) < 4095"
  shows "NewV7 g now e1 e2 =
     (case e2 of
        EntropyFails err \<Rightarrow> ([], Some err)
      | Entropy f2 \<Rightarrow>
          (Sprintf_uuid (v7_bytes now (if now \<noteq> LastMillis g then 0 else Counter g) f2), None),
      \<lparr>LastMillis = now, Counter = (if now \<noteq> LastMillis g then 0 else Counter g) + 1\<rparr>)"
  using assms
  by (cases e2)
     (auto simp add: NewV7_def Let_def rand_Read_def v7_build v7_bytes_def split: if_splits)

lemma NewV7_rollover:
  assumes "\<not> (if now \<noteq> LastMillis g then 0 else Counter g) < 4095"
  shows "NewV7 g now e1 e2 =
     (case e1 of
        EntropyFails err \<Rightarrow> ([], Some err)
      | Entropy f1 \<Rightarrow>
          (case e2 of
             EntropyFails err \<Rightarrow> ([], Some err)
           | Entropy f2 \<Rightarrow>
               (Sprintf_uuid (v7_bytes now (BigEndian_Uint16 [f1 0, f1 1] AND 0x0FFF) f2), None)),
      g)"
proof -
  from assms have same: "now = LastMillis g" and c: "\<not> Counter g < 4095"
    by (auto split: if_splits)
  show ?thesis
    using same c
    by (cases e1; cases e2)
       (simp_all add: NewV7_def Let_def rand_Read_fails rand_Read_2 rand_Read_def[of "Entropy _" 10] v7_build v7_bytes_def)
qed

lemma v7_bytes_layout:
  assumes "seq \<le> 0x0FFF"
  shows "v7_layout (Sprintf_uuid (v7_bytes now seq f)) now seq"
proof -
  have "sequence_field (v7_bytes now seq f) = seq"
    using sequence_bits[OF assms] by (simp add: sequence_field_def v7_bytes_def)
  moreover have "take 6 (v7_bytes now seq f) =
      [ucast (drop_bit 40 now), ucast (drop_bit 32 now), ucast (drop_bit 24 now),
       ucast (drop_bit 16 now), ucast (drop_bit 8 now), ucast now]"
    "v7_bytes now seq f ! 6 = 0x70 OR ucast (drop_bit 8 seq)"
    "v7_bytes now seq f ! 7 = ucast seq"
    by (simp_all add: v7_bytes_def)
  ultimately show ?thesis
    by (simp add: v7_layout_def UUIDfromString_Sprintf length_v7_bytes timestamp_field_v7)
qed

lemma v7_bytes_version:
  assumes "seq \<le> 0x0FFF"
  shows "renders_version (Sprintf_uuid (v7_bytes now seq f)) 7"
proof -
  have "version_of (v7_bytes now seq f) = 7"
    using version7_bits[OF assms] by (simp add: version_of_def v7_bytes_def)
  moreover have "variant_of (v7_bytes now seq f) = 2"
    using variant_bits[of "f 0"] by (simp add: variant_of_def v7_bytes_def)
  ultimately show ?thesis
    by (intro renders_versionI length_v7_bytes)
qed

lemma counter_le: "(c::16 word) < 4095 \<Longrightarrow> c \<le> 0x0FFF"
  by simp

lemma random12_le: "(w::16 word) AND 0x0FFF \<le> 0x0FFF"
  by (rule word_and_le1)

lemma counter_next: "(c::16 word) < 4095 \<Longrightarrow> c < c + 1 \<and> c + 1 \<le> 4095"
  by (simp add: word_less_nat_alt word_le_nat_alt unat_word_ariths)

lemma UUIDv7asString_NewV7:
  "UUIDv7asString G now e1 e2 =
     (let G = (if GeneratorV7Once G then G
               else \<lparr>GeneratorV7 = Some \<lparr>LastMillis = 0, Counter = 0\<rparr>, GeneratorV7Once = True,
                      GeneratorV7Err = None\<rparr>)
      in case GeneratorV7Err G of
           Some err \<Rightarrow> (([], Some (Wrapped ''fail to initialize uuid v7'' err)), G)
         | None \<Rightarrow>
             (case GeneratorV7 G of
                None \<Rightarrow> (([], Some NilPointerPanic), G)
              | Some g \<Rightarrow>
                  (fst (NewV7 g now e1 e2), G\<lparr>GeneratorV7 := Some (snd (NewV7 g now e1 e2))\<rparr>)))"
  unfolding UUIDv7asString_def NewV7_def NewUUIDGeneratorV7_def
  by (simp add: Let_def split: option.splits prod.splits)

lemma NewV7_steps:
  "LastMillis (millis_check g now) = now \<and>
   (now \<noteq> LastMillis g \<longrightarrow> Counter (millis_check g now) = 0) \<and>
   (now = LastMillis g \<longrightarrow> millis_check g now = g) \<and>
   (Counter (millis_check g now) < 4095 \<longrightarrow>
      snd (NewV7 g now e1 e2) =
        (millis_check g now)\<lparr>Counter := Counter (millis_check g now) + 1\<rparr> \<and>
      (\<forall>s. fst (NewV7 g now e1 e2) = (s, None) \<longrightarrow>
         v7_layout s now (Counter (millis_check g now)))) \<and>
   (\<not> Counter (millis_check g now) < 4095 \<longrightarrow>
      snd (NewV7 g now e1 e2) = millis_check g now \<and>
      (\<forall>s. fst (NewV7 g now e1 e2) = (s, None) \<longrightarrow>
         (\<exists>f. e1 = Entropy f \<and> v7_layout s now (BigEndian_Uint16 [f 0, f 1] AND 0x0FFF))))"
proof -
  have c: "Counter (millis_check g now) = (if now \<noteq> LastMillis g then 0 else Counter g)"
    by (simp add: millis_check_def)
  have 1: "LastMillis (millis_check g now) = now"
    "now \<noteq> LastMillis g \<longrightarrow> Counter (millis_check g now) = 0"
    "now = LastMillis g \<longrightarrow> millis_check g now = g"
    by (simp_all add: millis_check_def)
  have 2: "snd (NewV7 g now e1 e2) =
        (millis_check g now)\<lparr>Counter := Counter (millis_check g now) + 1\<rparr> \<and>
      (\<forall>s. fst (NewV7 g now e1 e2) = (s, None) \<longrightarrow>
         v7_layout s now (Counter (millis_check g now)))"
    if lt: "Counter (millis_check g now) < 4095"
  proof -
    have le: "Counter (millis_check g now) \<le> 0x0FFF" using lt by simp
    have N: "NewV7 g now e1 e2 =
     (case e2 of
        EntropyFails err \<Rightarrow> ([], Some err)
      | Entropy f2 \<Rightarrow>
          (Sprintf_uuid (v7_bytes now (Counter (millis_check g now)) f2), None),
      \<lparr>LastMillis = now, Counter = Counter (millis_check g now) + 1\<rparr>)"
      using NewV7_counter[of now g e1 e2] lt unfolding c by simp
    have "snd (NewV7 g now e1 e2) =
        (millis_check g now)\<lparr>Counter := Counter (millis_check g now) + 1\<rparr>"
      unfolding N by (simp add: millis_check_def)
    moreover have "\<forall>s. fst (NewV7 g now e1 e2) = (s, None) \<longrightarrow>
         v7_layout s now (Counter (millis_check g now))"
      unfolding N using v7_bytes_layout[OF le] by (cases e2) auto
    ultimately show ?thesis by simp
  qed
  have 3: "snd (NewV7 g now e1 e2) = millis_check g now \<and>
      (\<forall>s. fst (NewV7 g now e1 e2) = (s, None) \<longrightarrow>
         (\<exists>f. e1 = Entropy f \<and> v7_layout s now (BigEndian_Uint16 [f 0, f 1] AND 0x0FFF)))"
    if ge: "\<not> Counter (millis_check g now) < 4095"
  proof -
    have same: "millis_check g now = g"
      using ge by (auto simp: millis_check_def split: if_splits)
    have N: "NewV7 g now e1 e2 =
     (case e1 of
        EntropyFails err \<Rightarrow> ([], Some err)
      | Entropy f1 \<Rightarrow>
          (case e2 of
             EntropyFails err \<Rightarrow> ([], Some err)
           | Entropy f2 \<Rightarrow>
               (Sprintf_uuid (v7_bytes now (BigEndian_Uint16 [f1 0, f1 1] AND 0x0FFF) f2), None)),
      g)"
      using NewV7_rollover[of now g e1 e2] ge unfolding c by simp
    have "\<forall>s. fst (NewV7 g now e1 e2) = (s, None) \<longrightarrow>
         (\<exists>f. e1 = Entropy f \<and> v7_layout s now (BigEndian_Uint16 [f 0, f 1] AND 0x0FFF))"
      unfolding N using v7_bytes_layout[OF random12_le] by (cases e1; cases e2) auto
    then show ?thesis unfolding N same by simp
  qed
  from 1 2 3 show ?thesis by blast
qed

lemma NewV7_counter_bound:
  "Counter g \<le> 4095 \<Longrightarrow> Counter (snd (NewV7 g now e1 e2)) \<le> 4095"
proof (cases "Counter (millis_check g now) < 4095")
  case True
  then show ?thesis
    using NewV7_steps[of g now e1 e2] counter_next[of "Counter (millis_check g now)"] by simp
next
  case False
  assume "Counter g \<le> 4095"
  then show ?thesis
    using False NewV7_steps[of g now e1 e2] by (auto simp: millis_check_def split: if_splits)
qed

lemma v7_example_2000:
  "Sprintf_uuid (v7_bytes 2000 0 (\<lambda>_. 0)) = ''00000000-07d0-7000-8000-000000000000''"
  by (simp add: v7_bytes_def Sprintf_uuid16 fmt_x_Cons fmt_x_Nil ldigits_def)

lemma v7_example_1000:
  "Sprintf_uuid (v7_bytes 1000 0 (\<lambda>_. 0)) = ''00000000-03e8-7000-8000-000000000000''"
  by (simp add: v7_bytes_def Sprintf_uuid16 fmt_x_Cons fmt_x_Nil ldigits_def)

lemma NewV7_example_2000:
  "NewV7 \<lparr>LastMillis = 1000, Counter = 500\<rparr> 2000 zero_entropy zero_entropy =
     ((''00000000-07d0-7000-8000-000000000000'', None), \<lparr>LastMillis = 2000, Counter = 1\<rparr>)"
  using NewV7_counter[of 2000 "\<lparr>LastMillis = 1000, Counter = 500\<rparr>" zero_entropy zero_entropy]
  by (simp add: zero_entropy_def v7_example_2000)

text \<open>
  C2. One call of \<open>NewV7\<close> with the clock reading \<open>now\<close>. The millisecond check sets
  \<open>LastMillis = now\<close> and \<open>Counter = 0\<close> when \<open>now\<close> differs from the stored \<open>LastMillis\<close>
  and changes nothing otherwise. Then, if the counter is below 4095, the call leaves the
  counter incremented by one and a successful call returns an identifier whose sequence
  value is the counter before the increment; otherwise the counter is left as it is and
  a successful call returns an identifier whose sequence value is the low 12 bits of two
  fresh random bytes. In both cases the identifier holds \<open>now\<close> big-endian in bytes 0 to
  5, the nibble 7 and the top four sequence bits in byte 6, and the low eight sequence
  bits in byte 7. From a counter of at most 4095 (the constructor starts at 0) the counter
  stays at most 4095, so "otherwise" is the counter being 4095. \<open>UUIDv7asString\<close>, after
  its one-time initialisation, does the same on the package's generator.
\<close>

theorem NewV7_state_machine:
  "LastMillis (millis_check g now) = now \<and>
   (now \<noteq> LastMillis g \<longrightarrow> Counter (millis_check g now) = 0) \<and>
   (now = LastMillis g \<longrightarrow> millis_check g now = g) \<and>
   (Counter (millis_check g now) < 4095 \<longrightarrow>
      snd (NewV7 g now e1 e2) =
        (millis_check g now)\<lparr>Counter := Counter (millis_check g now) + 1\<rparr> \<and>
      (\<forall>s. fst (NewV7 g now e1 e2) = (s, None) \<longrightarrow>
         v7_layout s now (Counter (millis_check g now)))) \<and>
   (\<not> Counter (millis_check g now) < 4095 \<longrightarrow>
      snd (NewV7 g now e1 e2) = millis_check g now \<and>
      (\<forall>s. fst (NewV7 g now e1 e2) = (s, None) \<longrightarrow>
         (\<exists>f. e1 = Entropy f \<and> v7_layout s now (BigEndian_Uint16 [f 0, f 1] AND 0x0FFF)))) \<and>
   (Counter g \<le> 4095 \<longrightarrow>
      Counter (snd (NewV7 g now e1 e2)) \<le> 4095 \<and>
      (\<not> Counter (millis_check g now) < 4095 \<longrightarrow> Counter (millis_check g now) = 4095)) \<and>
   UUIDv7asString G now e1 e2 =
     (let G = (if GeneratorV7Once G then G
               else \<lparr>GeneratorV7 = Some \<lparr>LastMillis = 0, Counter = 0\<rparr>, GeneratorV7Once = True,
                      GeneratorV7Err = None\<rparr>)
      in case GeneratorV7Err G of
           Some err \<Rightarrow> (([], Some (Wrapped ''fail to initialize uuid v7'' err)), G)
         | None \<Rightarrow>
             (case GeneratorV7 G of
                None \<Rightarrow> (([], Some NilPointerPanic), G)
              | Some g \<Rightarrow>
                  (fst (NewV7 g now e1 e2), G\<lparr>GeneratorV7 := Some (snd (NewV7 g now e1 e2))\<rparr>)))"
proof -
  have "Counter (millis_check g now) = 4095"
    if "Counter g \<le> 4095" "\<not> Counter (millis_check g now) < 4095"
    using that by (auto simp: millis_check_def split: if_splits)
  then show ?thesis
    using NewV7_steps[of g now e1 e2] NewV7_counter_bound[of g now e1 e2]
      UUIDv7asString_NewV7[of G now e1 e2]
    by blast
qed

theorem NewV7_state_machine_witness:
  "snd (NewV7 \<lparr>LastMillis = 1000, Counter = 500\<rparr> 2000 zero_entropy zero_entropy) =
     \<lparr>LastMillis = 2000, Counter = 1\<rparr> \<and>
   fst (NewV7 \<lparr>LastMillis = 1000, Counter = 500\<rparr> 2000 zero_entropy zero_entropy) =
     (''00000000-07d0-7000-8000-000000000000'', None) \<and>
   v7_layout ''00000000-07d0-7000-8000-000000000000'' 2000 0 \<and>
   snd (NewV7 \<lparr>LastMillis = 2000, Counter = 4095\<rparr> 2000 zero_entropy zero_entropy) =
     \<lparr>LastMillis = 2000, Counter = 4095\<rparr>"
proof -
  have m: "millis_check \<lparr>LastMillis = 1000, Counter = 500\<rparr> 2000 = \<lparr>LastMillis = 2000, Counter = 0\<rparr>"
    "millis_check \<lparr>LastMillis = 2000, Counter = 4095\<rparr> 2000 = \<lparr>LastMillis = 2000, Counter = 4095\<rparr>"
    by (simp_all add: millis_check_def)
  have r: "fst (NewV7 \<lparr>LastMillis = 1000, Counter = 500\<rparr> 2000 zero_entropy zero_entropy) =
     (''00000000-07d0-7000-8000-000000000000'', None)"
    by (simp add: NewV7_example_2000)
  note a = NewV7_state_machine[of "\<lparr>LastMillis = 1000, Counter = 500\<rparr>" 2000 zero_entropy zero_entropy]
  note b = NewV7_state_machine[of "\<lparr>LastMillis = 2000, Counter = 4095\<rparr>" 2000 zero_entropy zero_entropy]
  have "snd (NewV7 \<lparr>LastMillis = 1000, Counter = 500\<rparr> 2000 zero_entropy zero_entropy) =
     \<lparr>LastMillis = 2000, Counter = 1\<rparr>"
    using a unfolding m by simp
  moreover have "v7_layout ''00000000-07d0-7000-8000-000000000000'' 2000 0"
    using a r unfolding m by simp
  moreover have "snd (NewV7 \<lparr>LastMillis = 2000, Counter = 4095\<rparr> 2000 zero_entropy zero_entropy) =
     \<lparr>LastMillis = 2000, Counter = 4095\<rparr>"
    using b unfolding m by simp
  ultimately show ?thesis using r by simp
qed

section \<open>Runs of the version 7 generator\<close>

lemma length_states_v7: "length (states_v7 g calls) = length calls"
  by (induction calls arbitrary: g) auto

lemma length_run_v7: "length (run_v7 g calls) = length calls"
  by (induction calls arbitrary: g) (auto split: prod.splits)

lemma run_v7_nth:
  "k < length calls \<Longrightarrow>
   run_v7 g calls ! k =
     fst (NewV7 (states_v7 g calls ! k) (fst (calls ! k)) (fst (snd (calls ! k)))
            (snd (snd (calls ! k))))"
proof (induction calls arbitrary: g k)
  case Nil
  then show ?case by simp
next
  case (Cons c calls)
  obtain now e1 e2 where c: "c = (now, e1, e2)" by (cases c) auto
  show ?case
    using Cons unfolding c by (cases k) (auto split: prod.splits)
qed

lemma states_v7_Suc:
  "Suc k < length calls \<Longrightarrow>
   states_v7 g calls ! Suc k =
     snd (NewV7 (states_v7 g calls ! k) (fst (calls ! k)) (fst (snd (calls ! k)))
            (snd (snd (calls ! k))))"
proof (induction calls arbitrary: g k)
  case Nil
  then show ?case by simp
next
  case (Cons c calls)
  obtain now e1 e2 where c: "c = (now, e1, e2)" by (cases c) auto
  show ?case
  proof (cases k)
    case 0
    then show ?thesis using Cons.prems unfolding c by (cases calls) auto
  next
    case (Suc k')
    then show ?thesis using Cons unfolding c by simp
  qed
qed

lemma NewV7_LastMillis: "LastMillis (snd (NewV7 g now e1 e2)) = now"
  using NewV7_steps[of g now e1 e2] by (cases "Counter (millis_check g now) < 4095") auto

lemma NewV7_same_millis_mono:
  assumes "LastMillis g = now"
  shows "Counter g \<le> Counter (snd (NewV7 g now e1 e2))"
proof -
  have m: "millis_check g now = g" using assms by (simp add: millis_check_def)
  show ?thesis
    using NewV7_steps[of g now e1 e2] counter_next[of "Counter g"] unfolding m
    by (cases "Counter g < 4095") auto
qed

text \<open>
  While the clock shows the same millisecond, the stored millisecond stays and the counter
  never decreases.
\<close>

lemma same_millis_counter_mono:
  assumes "j < length calls" "i < j" "\<forall>k. i \<le> k \<and> k \<le> j \<longrightarrow> fst (calls ! k) = n"
  shows "LastMillis (states_v7 g calls ! j) = n \<and>
         Counter (states_v7 g calls ! Suc i) \<le> Counter (states_v7 g calls ! j)"
  using assms
proof (induction j)
  case 0
  then show ?case by simp
next
  case (Suc j)
  have step: "states_v7 g calls ! Suc j =
     snd (NewV7 (states_v7 g calls ! j) n (fst (snd (calls ! j))) (snd (snd (calls ! j))))"
    using states_v7_Suc[of j calls g] Suc.prems by simp
  show ?case
  proof (cases "i = j")
    case True
    then show ?thesis using step by (simp add: NewV7_LastMillis)
  next
    case False
    then have IH: "LastMillis (states_v7 g calls ! j) = n"
      "Counter (states_v7 g calls ! Suc i) \<le> Counter (states_v7 g calls ! j)"
      using Suc by auto
    have "Counter (states_v7 g calls ! j) \<le> Counter (states_v7 g calls ! Suc j)"
      unfolding step using NewV7_same_millis_mono[OF IH(1)] by simp
    then show ?thesis
      unfolding step using IH(2) by (auto simp: NewV7_LastMillis)
  qed
qed


lemma take_bit48: "(w::64 word) < 2 ^ 48 \<Longrightarrow> take_bit 48 w = w"
  using less_mask_eq[of w 48] by (simp add: take_bit_eq_mask)

lemma v7_layout_fields:
  assumes "v7_layout s now seq"
  shows "timestamp_field (fst (UUIDfromString s)) = take_bit 48 now"
    and "sequence_field (fst (UUIDfromString s)) = seq"
  using assms by (cases "UUIDfromString s"; simp add: v7_layout_def)+

lemma NewV7_timestamp:
  assumes "fst (NewV7 g now e1 e2) = (s, None)"
  shows "timestamp_field (fst (UUIDfromString s)) = take_bit 48 now"
proof -
  have "\<exists>seq. v7_layout s now seq"
    using NewV7_steps[of g now e1 e2] assms
    by (cases "Counter (millis_check g now) < 4095") auto
  then show ?thesis using v7_layout_fields(1) by blast
qed

lemma NewV7_sequence:
  assumes "fst (NewV7 g now e1 e2) = (s, None)" "\<not> rollover g now"
  shows "sequence_field (fst (UUIDfromString s)) = Counter (millis_check g now)"
proof -
  have "v7_layout s now (Counter (millis_check g now))"
    using NewV7_steps[of g now e1 e2] assms by (simp add: rollover_def)
  then show ?thesis by (rule v7_layout_fields(2))
qed

text \<open>
  C8, as stated, fails: the generator takes the clock reading as it comes, and a clock
  that steps back (the case \<open>TestUUIDv7TimeRegression\<close> exercises) makes the second
  identifier's timestamp smaller than the first's.
\<close>

theorem v7_clock_regression_counterexample:
  "run_v7 \<lparr>LastMillis = 0, Counter = 0\<rparr>
     [(2000, zero_entropy, zero_entropy), (1000, zero_entropy, zero_entropy)] =
     [(''00000000-07d0-7000-8000-000000000000'', None),
      (''00000000-03e8-7000-8000-000000000000'', None)] \<and>
   timestamp_field (fst (UUIDfromString ''00000000-03e8-7000-8000-000000000000'')) <
   timestamp_field (fst (UUIDfromString ''00000000-07d0-7000-8000-000000000000''))"
proof -
  have 1: "NewV7 \<lparr>LastMillis = 0, Counter = 0\<rparr> 2000 zero_entropy zero_entropy =
     ((''00000000-07d0-7000-8000-000000000000'', None), \<lparr>LastMillis = 2000, Counter = 1\<rparr>)"
    using NewV7_counter[of 2000 "\<lparr>LastMillis = 0, Counter = 0\<rparr>" zero_entropy zero_entropy]
    by (simp add: zero_entropy_def v7_example_2000)
  have 2: "NewV7 \<lparr>LastMillis = 2000, Counter = 1\<rparr> 1000 zero_entropy zero_entropy =
     ((''00000000-03e8-7000-8000-000000000000'', None), \<lparr>LastMillis = 1000, Counter = 1\<rparr>)"
    using NewV7_counter[of 1000 "\<lparr>LastMillis = 2000, Counter = 1\<rparr>" zero_entropy zero_entropy]
    by (simp add: zero_entropy_def v7_example_1000)
  have 3: "timestamp_field (fst (UUIDfromString ''00000000-07d0-7000-8000-000000000000'')) = 2000"
    using UUIDfromString_Sprintf[OF length_v7_bytes, of 2000 0 "\<lambda>_. 0"]
      timestamp_field_v7[of 2000 0 "\<lambda>_. 0"] take_bit48[of 2000]
    unfolding v7_example_2000 by simp
  have 4: "timestamp_field (fst (UUIDfromString ''00000000-03e8-7000-8000-000000000000'')) = 1000"
    using UUIDfromString_Sprintf[OF length_v7_bytes, of 1000 0 "\<lambda>_. 0"]
      timestamp_field_v7[of 1000 0 "\<lambda>_. 0"] take_bit48[of 1000]
    unfolding v7_example_1000 by simp
  show ?thesis unfolding 3 4 by (simp add: 1 2)
qed

text \<open>
  C8, amended. In a run of one generator whose clock readings never decrease and fit in
  48 bits, take two successful calls, the first before the second. The timestamp field
  of the second identifier is at least that of the first; and when the two are equal and
  the second call did not take the rollover branch (then no call between them did), the
  sequence field of the second identifier is greater than that of the first.
\<close>

theorem v7_ordering:
  assumes sorted: "sorted (map fst calls)"
    and range: "\<forall>c\<in>set calls. fst c < 2 ^ 48"
    and ij: "i < j" "j < length calls"
    and ri: "run_v7 g calls ! i = (si, None)"
    and rj: "run_v7 g calls ! j = (sj, None)"
  shows "timestamp_field (fst (UUIDfromString si)) \<le> timestamp_field (fst (UUIDfromString sj)) \<and>
         (timestamp_field (fst (UUIDfromString si)) = timestamp_field (fst (UUIDfromString sj)) \<and>
          \<not> rollover (states_v7 g calls ! j) (fst (calls ! j)) \<longrightarrow>
            sequence_field (fst (UUIDfromString si)) < sequence_field (fst (UUIDfromString sj)))"
proof -
  define S where "S = states_v7 g calls"
  define n where "n = (\<lambda>k. fst (calls ! k))"
  have i_len: "i < length calls" and Suc_i: "Suc i < length calls \<or> Suc i = length calls"
    using ij by auto
  have Ni: "fst (NewV7 (S ! i) (n i) (fst (snd (calls ! i))) (snd (snd (calls ! i)))) = (si, None)"
    using run_v7_nth[OF i_len, of g] ri by (simp add: S_def n_def)
  have Nj: "fst (NewV7 (S ! j) (n j) (fst (snd (calls ! j))) (snd (snd (calls ! j)))) = (sj, None)"
    using run_v7_nth[OF ij(2), of g] rj by (simp add: S_def n_def)
  have small: "n k < 2 ^ 48" if "k < length calls" for k
    using range that by (simp add: n_def)
  have ti: "timestamp_field (fst (UUIDfromString si)) = n i"
    using NewV7_timestamp[OF Ni] take_bit48[OF small[OF i_len]] by simp
  have tj: "timestamp_field (fst (UUIDfromString sj)) = n j"
    using NewV7_timestamp[OF Nj] take_bit48[OF small[OF ij(2)]] by simp
  have mono: "n k \<le> n l" if "k \<le> l" "l < length calls" for k l
    using sorted_nth_mono[OF sorted, of k l] that by (simp add: n_def)
  have le: "n i \<le> n j" using mono[of i j] ij by simp
  have seq: "sequence_field (fst (UUIDfromString si)) < sequence_field (fst (UUIDfromString sj))"
    if eq: "n i = n j" and nr: "\<not> rollover (S ! j) (n j)"
  proof -
    have same: "\<forall>k. i \<le> k \<and> k \<le> j \<longrightarrow> fst (calls ! k) = n j"
    proof (intro allI impI)
      fix k assume k: "i \<le> k \<and> k \<le> j"
      then have "n i \<le> n k" "n k \<le> n j" using mono[of i k] mono[of k j] ij by auto
      then show "fst (calls ! k) = n j" using eq by (simp add: n_def)
    qed
    have inv: "LastMillis (S ! j) = n j" "Counter (S ! Suc i) \<le> Counter (S ! j)"
      using same_millis_counter_mono[OF ij(2) ij(1) same, of g] by (simp_all add: S_def)
    have mj: "millis_check (S ! j) (n j) = S ! j"
      using inv(1) by (simp add: millis_check_def)
    have cj: "Counter (S ! j) < 4095" using nr by (simp add: rollover_def mj)
    have sj: "sequence_field (fst (UUIDfromString sj)) = Counter (S ! j)"
      using NewV7_sequence[OF Nj nr] by (simp add: mj)
    have next_i: "S ! Suc i = snd (NewV7 (S ! i) (n i) (fst (snd (calls ! i))) (snd (snd (calls ! i))))"
      using states_v7_Suc[of i calls g] ij by (simp add: S_def n_def)
    show ?thesis
    proof (cases "rollover (S ! i) (n i)")
      case True
      then have "Counter (S ! Suc i) = Counter (millis_check (S ! i) (n i))"
        using NewV7_steps[of "S ! i" "n i"] unfolding next_i by (simp add: rollover_def)
      then have "\<not> Counter (S ! Suc i) < 4095" using True by (simp add: rollover_def)
      then show ?thesis using inv(2) cj by auto
    next
      case False
      then have c: "Counter (millis_check (S ! i) (n i)) < 4095" by (simp add: rollover_def)
      have "Counter (S ! Suc i) = Counter (millis_check (S ! i) (n i)) + 1"
        using NewV7_steps[of "S ! i" "n i"] c unfolding next_i by simp
      moreover have "sequence_field (fst (UUIDfromString si)) = Counter (millis_check (S ! i) (n i))"
        using NewV7_sequence[OF Ni False] .
      ultimately show ?thesis
        using counter_next[OF c] inv(2) sj by auto
    qed
  qed
  show ?thesis
    using le seq unfolding ti tj by (simp add: S_def n_def)
qed

lemma v7_example_1000_1:
  "Sprintf_uuid (v7_bytes 1000 1 (\<lambda>_. 0)) = ''00000000-03e8-7001-8000-000000000000''"
  by (simp add: v7_bytes_def Sprintf_uuid16 fmt_x_Cons fmt_x_Nil ldigits_def)

theorem v7_ordering_witness:
  "sorted (map fst [(1000 :: 64 word, zero_entropy, zero_entropy), (1000, zero_entropy, zero_entropy)]) \<and>
   run_v7 \<lparr>LastMillis = 0, Counter = 0\<rparr>
     [(1000, zero_entropy, zero_entropy), (1000, zero_entropy, zero_entropy)] =
     [(''00000000-03e8-7000-8000-000000000000'', None),
      (''00000000-03e8-7001-8000-000000000000'', None)] \<and>
   timestamp_field (fst (UUIDfromString ''00000000-03e8-7000-8000-000000000000'')) =
   timestamp_field (fst (UUIDfromString ''00000000-03e8-7001-8000-000000000000'')) \<and>
   sequence_field (fst (UUIDfromString ''00000000-03e8-7000-8000-000000000000'')) <
   sequence_field (fst (UUIDfromString ''00000000-03e8-7001-8000-000000000000''))"
proof -
  let ?calls = "[(1000 :: 64 word, zero_entropy, zero_entropy), (1000, zero_entropy, zero_entropy)]"
  let ?g = "\<lparr>LastMillis = 0, Counter = 0\<rparr>"
  have 1: "NewV7 ?g 1000 zero_entropy zero_entropy =
     ((''00000000-03e8-7000-8000-000000000000'', None), \<lparr>LastMillis = 1000, Counter = 1\<rparr>)"
    using NewV7_counter[of 1000 ?g zero_entropy zero_entropy]
    by (simp add: zero_entropy_def v7_example_1000)
  have 2: "NewV7 \<lparr>LastMillis = 1000, Counter = 1\<rparr> 1000 zero_entropy zero_entropy =
     ((''00000000-03e8-7001-8000-000000000000'', None), \<lparr>LastMillis = 1000, Counter = 2\<rparr>)"
    using NewV7_counter[of 1000 "\<lparr>LastMillis = 1000, Counter = 1\<rparr>" zero_entropy zero_entropy]
    by (simp add: zero_entropy_def v7_example_1000_1)
  have run: "run_v7 ?g ?calls =
     [(''00000000-03e8-7000-8000-000000000000'', None),
      (''00000000-03e8-7001-8000-000000000000'', None)]"
    by (simp add: 1 2)
  have st: "states_v7 ?g ?calls ! 1 = \<lparr>LastMillis = 1000, Counter = 1\<rparr>"
    by (simp add: 1)
  have nr: "\<not> rollover (states_v7 ?g ?calls ! 1) (fst (?calls ! 1))"
    unfolding st by (simp add: rollover_def millis_check_def)
  have srt: "sorted (map fst ?calls)" by simp
  have rng: "\<forall>c\<in>set ?calls. fst c < 2 ^ 48" by simp
  have t0: "timestamp_field (fst (UUIDfromString ''00000000-03e8-7000-8000-000000000000'')) = 1000"
    using UUIDfromString_Sprintf[OF length_v7_bytes, of 1000 0 "\<lambda>_. 0"]
      timestamp_field_v7[of 1000 0 "\<lambda>_. 0"] take_bit48[of 1000]
    unfolding v7_example_1000 by simp
  have t1: "timestamp_field (fst (UUIDfromString ''00000000-03e8-7001-8000-000000000000'')) = 1000"
    using UUIDfromString_Sprintf[OF length_v7_bytes, of 1000 1 "\<lambda>_. 0"]
      timestamp_field_v7[of 1000 1 "\<lambda>_. 0"] take_bit48[of 1000]
    unfolding v7_example_1000_1 by simp
  have ri: "run_v7 ?g ?calls ! 0 = (''00000000-03e8-7000-8000-000000000000'', None)"
    unfolding run by simp
  have rj: "run_v7 ?g ?calls ! 1 = (''00000000-03e8-7001-8000-000000000000'', None)"
    unfolding run by simp
  have ij: "(0::nat) < 1" "1 < length ?calls" by simp_all
  have teq: "timestamp_field (fst (UUIDfromString ''00000000-03e8-7000-8000-000000000000'')) =
   timestamp_field (fst (UUIDfromString ''00000000-03e8-7001-8000-000000000000''))"
    unfolding t0 t1 by simp
  have "sequence_field (fst (UUIDfromString ''00000000-03e8-7000-8000-000000000000'')) <
   sequence_field (fst (UUIDfromString ''00000000-03e8-7001-8000-000000000000''))"
    using v7_ordering[OF srt rng ij ri rj] teq nr by blast
  then show ?thesis using srt run teq by blast
qed

section \<open>The version 4 generator\<close>

lemma UUIDv4asString_fails:
  "UUIDv4asString (EntropyFails err) = (''uuid_v4-error#1'', Some err)"
  by (simp add: UUIDv4asString_def rand_Read_def)

lemma UUIDv4asString_ok:
  "UUIDv4asString (Entropy f) =
     (Sprintf_uuid ((map f [0..<16])[6 := (f 6 AND 0x0f) OR 0x40, 8 := (f 8 AND 0x3f) OR 0x80]), None)"
  by (simp add: UUIDv4asString_def rand_Read_def Let_def del: upt_Suc)

lemma v4_bytes_version:
  "renders_version (Sprintf_uuid ((map f [0..<16])[6 := (f 6 AND 0x0f) OR 0x40, 8 := (f 8 AND 0x3f) OR 0x80])) 4"
proof -
  let ?b = "(map f [0..<16])[6 := (f 6 AND 0x0f) OR 0x40, 8 := (f 8 AND 0x3f) OR 0x80]"
  have len: "length ?b = 16" by simp
  have "?b ! 6 = (f 6 AND 0x0f) OR 0x40" "?b ! 8 = (f 8 AND 0x3f) OR 0x80"
    by (simp_all del: upt_Suc)
  then have "version_of ?b = 4" "variant_of ?b = 2"
    using version4_bits[of "f 6"] variant_bits[of "f 8"]
    by (simp_all add: version_of_def variant_of_def del: upt_Suc)
  then show ?thesis
    using len by (intro renders_versionI)
qed

lemma UUIDv4_fails:
  "UUIDv4 (EntropyFails err) = (replicate 16 0, Some (WrongUUIDLength 15))"
  using UUIDfromString_other[of "''uuid_v4-error#1''"]
  by (simp add: UUIDv4_def UUIDv4asString_fails)

lemma UUIDv4_ok:
  "UUIDv4 (Entropy f) =
     ((map f [0..<16])[6 := (f 6 AND 0x0f) OR 0x40, 8 := (f 8 AND 0x3f) OR 0x80], None)"
proof -
  let ?b = "(map f [0..<16])[6 := (f 6 AND 0x0f) OR 0x40, 8 := (f 8 AND 0x3f) OR 0x80]"
  have len: "length ?b = 16" by simp
  show ?thesis
    using UUIDfromString_Sprintf[OF len] by (simp add: UUIDv4_def UUIDv4asString_ok del: upt_Suc)
qed

text \<open>
  C6, as stated, fails for \<open>UUIDv4\<close>: it discards the error of \<open>UUIDv4asString\<close>, parses
  the placeholder string, and returns the parser's wrong-length error instead of the
  random source's error.
\<close>

theorem UUIDv4_error_counterexample:
  "snd (rand_Read (EntropyFails EntropyUnavailable) 16) = Some EntropyUnavailable \<and>
   snd (UUIDv4 (EntropyFails EntropyUnavailable)) \<noteq> Some EntropyUnavailable"
  by (simp add: UUIDv4_fails rand_Read_def)

text \<open>
  C6, amended. When the random source fails, \<open>UUIDv4asString\<close> returns the random source's
  error itself, together with the placeholder string \<open>uuid_v4-error#1\<close>; \<open>UUIDv4\<close> returns
  an error too, but it is the parser's wrong-length error for that 15-character
  placeholder, and its array is all zero: no identifier is produced, and only a random
  source that delivers its bytes makes either function succeed.
\<close>

theorem UUIDv4_random_failure:
  "UUIDv4asString (EntropyFails err) = (''uuid_v4-error#1'', Some err) \<and>
   UUIDv4 (EntropyFails err) = (replicate 16 0, Some (WrongUUIDLength 15)) \<and>
   (snd (UUIDv4asString ent) = None \<or> snd (UUIDv4 ent) = None \<longrightarrow> (\<exists>f. ent = Entropy f))"
  by (cases ent) (simp_all add: UUIDv4asString_fails UUIDv4_fails)

theorem UUIDv4_random_failure_witness:
  "UUIDv4asString (EntropyFails EntropyUnavailable) = (''uuid_v4-error#1'', Some EntropyUnavailable) \<and>
   UUIDv4 (EntropyFails EntropyUnavailable) = (replicate 16 0, Some (WrongUUIDLength 15)) \<and>
   snd (UUIDv4 zero_entropy) = None"
proof -
  have "snd (UUIDv4 zero_entropy) = None"
    by (simp add: zero_entropy_def UUIDv4_ok)
  then show ?thesis
    using UUIDv4_random_failure[of EntropyUnavailable zero_entropy] by simp
qed

section \<open>The version 1 generator\<close>

lemma length_v1_bytes: "length (v1_bytes ts cs node) = 16"
  by (simp add: v1_bytes_def Let_def copy_def BigEndian_PutUint32_def BigEndian_PutUint16_def)

lemma v1_bytes_6:
  "v1_bytes ts cs node ! 6 =
     ucast (drop_bit 8 ((ucast (drop_bit 48 ts AND 0x0FFF) :: 16 word) OR 0x1000))"
  by (simp add: v1_bytes_def Let_def copy_def BigEndian_PutUint32_def BigEndian_PutUint16_def
      nth_append replicate16 update_numeral)

lemma v1_bytes_8:
  "v1_bytes ts cs node ! 8 = (ucast (drop_bit 8 cs AND 0x3F) :: byte) OR 0x80"
  by (simp add: v1_bytes_def Let_def copy_def BigEndian_PutUint32_def BigEndian_PutUint16_def
      nth_append replicate16 update_numeral)

lemma v1_bytes_version: "renders_version (Sprintf_uuid (v1_bytes ts cs node)) 1"
proof -
  have "version_of (v1_bytes ts cs node) = 1"
    using version1_bits[of ts] by (simp add: version_of_def v1_bytes_6)
  moreover have "variant_of (v1_bytes ts cs node) = 2"
    using variant1_bits[of cs] by (simp add: variant_of_def v1_bytes_8)
  ultimately show ?thesis
    by (intro renders_versionI length_v1_bytes)
qed

lemma sdiv100_bound:
  fixes k :: int
  assumes "- (2 ^ 63) \<le> k" "k < 2 ^ 63"
  shows "- 92233720368547758 \<le> k sdiv 100 \<and> k sdiv 100 \<le> 92233720368547758"
proof -
  have a: "\<bar>k\<bar> \<le> 2 ^ 63" using assms by (simp add: abs_le_iff)
  have "\<bar>k\<bar> div 100 \<le> 2 ^ 63 div 100"
    using a by (rule zdiv_mono1) simp
  then have b: "\<bar>k\<bar> div 100 \<le> 92233720368547758" by simp
  have c: "0 \<le> \<bar>k\<bar> div 100" by (simp add: pos_imp_zdiv_nonneg_iff)
  have "k sdiv 100 = sgn k * (\<bar>k\<bar> div 100)"
    by (simp add: signed_divide_int_def)
  then have "k sdiv 100 = \<bar>k\<bar> div 100 \<or> k sdiv 100 = - (\<bar>k\<bar> div 100) \<or> k sdiv 100 = 0"
    by (cases "k = 0"; cases "k < 0") (simp_all add: sgn_if)
  then show ?thesis using b c by linarith
qed

lemma getTimestamp_nonzero: "getTimestamp x \<noteq> 0"
proof -
  define q where "q = sint x sdiv 100"
  have r: "- (2 ^ 63) \<le> sint x" "sint x < 2 ^ 63"
    using sint_ge[of x] sint_lt[of x] by simp_all
  have q: "- 92233720368547758 \<le> q" "q \<le> 92233720368547758"
    using sdiv100_bound[OF r] by (simp_all add: q_def)
  have eq: "getTimestamp x = word_of_int (q + 122192928000000000)"
    by (simp add: getTimestamp_def Let_def q_def gregorianOffset_def)
  have pos: "0 < q + 122192928000000000" "q + 122192928000000000 < 2 ^ 64"
    using q by simp_all
  have "uint (word_of_int (q + 122192928000000000) :: 64 word) = q + 122192928000000000"
    using pos by (simp only: uint_word_of_int len_of_numeral_defs) simp
  then have "uint (getTimestamp x) \<noteq> 0" using pos unfolding eq by simp
  then show ?thesis by auto
qed

lemma clockSeq_next: "unat (((c::16 word) + 1) AND clockSeqMask) = (unat c + 1) mod 2 ^ 14"
proof -
  have m: "(0x3fff::16 word) = mask 14" by (simp add: mask_eq_exp_minus_1)
  have "unat ((c + 1) AND mask 14) = unat (c + 1) mod 2 ^ 14"
    by (simp add: take_bit_eq_mod unat_mod flip: take_bit_eq_mask)
  also have "\<dots> = ((unat c + 1) mod 2 ^ 16) mod 2 ^ 14"
    by (simp add: unat_word_ariths)
  also have "\<dots> = (unat c + 1) mod 2 ^ 14"
    by (simp add: mod_mod_cancel)
  finally show ?thesis by (simp add: clockSeqMask_def m)
qed

lemma random14: "unat ((w::16 word) AND clockSeqMask) < 2 ^ 14"
proof -
  have "unat (w AND 0x3fff) \<le> unat (0x3fff :: 16 word)"
    using word_and_le1[of w "0x3fff"] unfolding word_le_nat_alt .
  then show ?thesis by (simp add: clockSeqMask_def)
qed

lemma GetRandom14Bit_fails: "GetRandom14Bit (EntropyFails err) = (0, Some err)"
  by (simp add: GetRandom14Bit_def rand_Read_def)

lemma GetRandom14Bit_ok:
  "GetRandom14Bit (Entropy f) = (BigEndian_Uint16 [f 0, f 1] AND clockSeqMask, None)"
  by (simp add: GetRandom14Bit_def rand_Read_2)

lemma wait_timestamp_done:
  "timestamp \<noteq> lastTimestamp \<Longrightarrow> wait_timestamp clk lastTimestamp k timestamp = Some timestamp"
  by (subst wait_timestamp.simps) simp

text \<open>The loop ends at the first reading that differs from the stored tick.\<close>

lemma wait_timestamp_first_change:
  assumes "\<forall>j. k \<le> j \<and> j < k + d \<longrightarrow> getTimestamp (clk j) = lastTimestamp"
    and "getTimestamp (clk (k + d)) \<noteq> lastTimestamp"
  shows "wait_timestamp clk lastTimestamp k lastTimestamp = Some (getTimestamp (clk (k + d)))"
  using assms
proof (induction d arbitrary: k)
  case 0
  then show ?case
    by (subst wait_timestamp.simps) (simp add: wait_timestamp_done)
next
  case (Suc d)
  have here: "getTimestamp (clk k) = lastTimestamp" using Suc.prems(1) by simp
  have "wait_timestamp clk lastTimestamp (Suc k) lastTimestamp =
      Some (getTimestamp (clk (Suc k + d)))"
    using Suc.prems by (intro Suc.IH) auto
  then show ?case
    by (subst wait_timestamp.simps) (simp add: here)
qed

text \<open>With a clock that never leaves the stored tick the loop does not return.\<close>

lemma wait_timestamp_returns:
  assumes "wait_timestamp clk lastTimestamp k timestamp = Some y"
  shows "\<not> (timestamp = lastTimestamp \<and> (\<forall>j\<ge>k. getTimestamp (clk j) = lastTimestamp))"
proof (rule wait_timestamp.raw_induct[where P = "\<lambda>c l i t y. \<not> (t = l \<and> (\<forall>j\<ge>i. getTimestamp (c j) = l))",
      OF _ assms])
  fix wait :: "(nat \<Rightarrow> 64 word) \<Rightarrow> 64 word \<Rightarrow> nat \<Rightarrow> 64 word \<Rightarrow> 64 word option"
  fix c l i t y'
  assume IH: "\<And>c l i t y'. wait c l i t = Some y' \<Longrightarrow>
      \<not> (t = l \<and> (\<forall>j\<ge>i. getTimestamp (c j) = l))"
  assume eq: "(if t = l then wait c l (i + 1) (getTimestamp (c i)) else Some t) = Some y'"
  show "\<not> (t = l \<and> (\<forall>j\<ge>i. getTimestamp (c j) = l))"
  proof
    assume a: "t = l \<and> (\<forall>j\<ge>i. getTimestamp (c j) = l)"
    then have here: "getTimestamp (c i) = l" by simp
    have "wait c l (i + 1) l = Some y'"
      using eq a here by simp
    then have "\<not> (l = l \<and> (\<forall>j\<ge>i + 1. getTimestamp (c j) = l))"
      by (rule IH)
    then show False using a by auto
  qed
qed

lemma wait_timestamp_frozen:
  assumes "\<forall>j\<ge>k. getTimestamp (clk j) = lastTimestamp"
  shows "wait_timestamp clk lastTimestamp k lastTimestamp = None"
proof (cases "wait_timestamp clk lastTimestamp k lastTimestamp")
  case None
  then show ?thesis .
next
  case (Some y)
  then show ?thesis using wait_timestamp_returns[OF Some] assms by simp
qed

lemma word_less_nonzero: "(a::64 word) < b \<Longrightarrow> b \<noteq> 0"
  by auto

text \<open>
  C3. One call of \<open>NewV1\<close>, with \<open>timestamp\<close> the first clock sample. If the stored
  \<open>LastTimestamp\<close> is 0, or the timestamp is greater than it, the clock sequence is a
  fresh random 14-bit value (the low 14 bits of two random bytes). If the timestamp is
  smaller, or equal with the incremented clock sequence not wrapping to 0, the clock
  sequence is the stored one plus 1 modulo \<open>2^14\<close>. If it is equal and the increment wraps
  to 0, the call re-samples the clock until a sample differs from the stored tick, goes on
  with that sample and a fresh random clock sequence, and never returns if the clock
  never leaves the tick. Whenever the call succeeds, the timestamp and the clock sequence
  it used are the generator's new state and the content of the identifier; a failing
  random source ends the call with its error and the state as it was.
\<close>

theorem NewV1_clock_sequence:
  "(LastTimestamp g = 0 \<or> LastTimestamp g < getTimestamp (clk 0) \<longrightarrow>
      NewV1 g clk ent =
        (case ent of
           EntropyFails err \<Rightarrow> Some (([], Some err), g)
         | Entropy f \<Rightarrow>
             Some (v1_finish g (getTimestamp (clk 0)) (BigEndian_Uint16 [f 0, f 1] AND clockSeqMask)))) \<and>
   (getTimestamp (clk 0) < LastTimestamp g \<or>
    getTimestamp (clk 0) = LastTimestamp g \<and> (ClockSeq g + 1) AND clockSeqMask \<noteq> 0 \<longrightarrow>
      NewV1 g clk ent =
        Some (v1_finish g (getTimestamp (clk 0)) ((ClockSeq g + 1) AND clockSeqMask))) \<and>
   (getTimestamp (clk 0) = LastTimestamp g \<and> (ClockSeq g + 1) AND clockSeqMask = 0 \<and>
    0 < k \<and> (\<forall>j. 0 < j \<and> j < k \<longrightarrow> getTimestamp (clk j) = LastTimestamp g) \<and>
    getTimestamp (clk k) \<noteq> LastTimestamp g \<longrightarrow>
      NewV1 g clk ent =
        (case ent of
           EntropyFails err \<Rightarrow> Some (([], Some err), g)
         | Entropy f \<Rightarrow>
             Some (v1_finish g (getTimestamp (clk k)) (BigEndian_Uint16 [f 0, f 1] AND clockSeqMask)))) \<and>
   (getTimestamp (clk 0) = LastTimestamp g \<and> (ClockSeq g + 1) AND clockSeqMask = 0 \<and>
    (\<forall>j>0. getTimestamp (clk j) = LastTimestamp g) \<longrightarrow>
      NewV1 g clk ent = None) \<and>
   v1_finish g timestamp clockSeq =
     ((Sprintf_uuid (v1_bytes timestamp clockSeq (Node g)), None),
      g\<lparr>LastTimestamp := timestamp, ClockSeq := clockSeq\<rparr>) \<and>
   unat ((ClockSeq g + 1) AND clockSeqMask) = (unat (ClockSeq g) + 1) mod 2 ^ 14 \<and>
   unat (w AND clockSeqMask) < 2 ^ 14"
proof (intro conjI impI)
  assume a: "LastTimestamp g = 0 \<or> LastTimestamp g < getTimestamp (clk 0)"
  then have "LastTimestamp g \<noteq> 0 \<longrightarrow>
      \<not> getTimestamp (clk 0) < LastTimestamp g \<and> getTimestamp (clk 0) \<noteq> LastTimestamp g"
    by auto
  then show "NewV1 g clk ent =
        (case ent of
           EntropyFails err \<Rightarrow> Some (([], Some err), g)
         | Entropy f \<Rightarrow>
             Some (v1_finish g (getTimestamp (clk 0)) (BigEndian_Uint16 [f 0, f 1] AND clockSeqMask)))"
    by (cases ent)
       (auto simp add: NewV1_def v1_switch_def Let_def GetRandom14Bit_fails GetRandom14Bit_ok)
next
  assume a: "getTimestamp (clk 0) < LastTimestamp g \<or>
    getTimestamp (clk 0) = LastTimestamp g \<and> (ClockSeq g + 1) AND clockSeqMask \<noteq> 0"
  then have "LastTimestamp g \<noteq> 0"
    using getTimestamp_nonzero[of "clk 0"] word_less_nonzero by auto
  then show "NewV1 g clk ent =
        Some (v1_finish g (getTimestamp (clk 0)) ((ClockSeq g + 1) AND clockSeqMask))"
    using a by (auto simp add: NewV1_def v1_switch_def Let_def)
next
  assume a: "getTimestamp (clk 0) = LastTimestamp g \<and> (ClockSeq g + 1) AND clockSeqMask = 0 \<and>
    0 < k \<and> (\<forall>j. 0 < j \<and> j < k \<longrightarrow> getTimestamp (clk j) = LastTimestamp g) \<and>
    getTimestamp (clk k) \<noteq> LastTimestamp g"
  then have nz: "LastTimestamp g \<noteq> 0"
    using getTimestamp_nonzero[of "clk 0"] by auto
  have "wait_timestamp clk (LastTimestamp g) 1 (LastTimestamp g) =
      Some (getTimestamp (clk (1 + (k - 1))))"
    using a by (intro wait_timestamp_first_change) auto
  then have w: "wait_timestamp clk (LastTimestamp g) 1 (LastTimestamp g) = Some (getTimestamp (clk k))"
    using a by simp
  show "NewV1 g clk ent =
        (case ent of
           EntropyFails err \<Rightarrow> Some (([], Some err), g)
         | Entropy f \<Rightarrow>
             Some (v1_finish g (getTimestamp (clk k)) (BigEndian_Uint16 [f 0, f 1] AND clockSeqMask)))"
    using a nz w
    by (cases ent)
       (auto simp add: NewV1_def v1_switch_def Let_def GetRandom14Bit_fails GetRandom14Bit_ok)
next
  assume a: "getTimestamp (clk 0) = LastTimestamp g \<and> (ClockSeq g + 1) AND clockSeqMask = 0 \<and>
    (\<forall>j>0. getTimestamp (clk j) = LastTimestamp g)"
  then have nz: "LastTimestamp g \<noteq> 0"
    using getTimestamp_nonzero[of "clk 0"] by auto
  have w: "wait_timestamp clk (LastTimestamp g) 1 (LastTimestamp g) = None"
    using a by (intro wait_timestamp_frozen) auto
  show "NewV1 g clk ent = None"
    using a nz w by (auto simp add: NewV1_def v1_switch_def Let_def)
next
  show "v1_finish g timestamp clockSeq =
     ((Sprintf_uuid (v1_bytes timestamp clockSeq (Node g)), None),
      g\<lparr>LastTimestamp := timestamp, ClockSeq := clockSeq\<rparr>)"
    by (simp add: v1_finish_def Let_def)
next
  show "unat ((ClockSeq g + 1) AND clockSeqMask) = (unat (ClockSeq g) + 1) mod 2 ^ 14"
    by (rule clockSeq_next)
next
  show "unat (w AND clockSeqMask) < 2 ^ 14"
    by (rule random14)
qed

lemma getTimestamp_frozen: "getTimestamp (frozen_clock k) = 122192928000000000"
  by (simp add: getTimestamp_def frozen_clock_def gregorianOffset_def)

lemma getTimestamp_ticking_0: "getTimestamp (ticking_clock 0) = 122192928000000000"
  by (simp add: getTimestamp_def ticking_clock_def gregorianOffset_def)

lemma getTimestamp_ticking_1: "getTimestamp (ticking_clock (Suc 0)) = 122192928000000001"
  by (simp add: getTimestamp_def ticking_clock_def gregorianOffset_def signed_divide_int_def)

theorem NewV1_clock_sequence_witness:
  "NewV1 \<lparr>LastTimestamp = 122192928000000005, ClockSeq = 7, Node = [0, 0, 0, 0, 0, 0]\<rparr>
     frozen_clock zero_entropy =
     Some (v1_finish \<lparr>LastTimestamp = 122192928000000005, ClockSeq = 7, Node = [0, 0, 0, 0, 0, 0]\<rparr>
             122192928000000000 8) \<and>
   NewV1 \<lparr>LastTimestamp = 122192928000000000, ClockSeq = 0x3fff, Node = [0, 0, 0, 0, 0, 0]\<rparr>
     frozen_clock zero_entropy = None \<and>
   NewV1 \<lparr>LastTimestamp = 122192928000000000, ClockSeq = 0x3fff, Node = [0, 0, 0, 0, 0, 0]\<rparr>
     ticking_clock zero_entropy =
     Some (v1_finish \<lparr>LastTimestamp = 122192928000000000, ClockSeq = 0x3fff, Node = [0, 0, 0, 0, 0, 0]\<rparr>
             122192928000000001 0) \<and>
   NewV1 \<lparr>LastTimestamp = 0, ClockSeq = 7, Node = [0, 0, 0, 0, 0, 0]\<rparr>
     frozen_clock zero_entropy =
     Some (v1_finish \<lparr>LastTimestamp = 0, ClockSeq = 7, Node = [0, 0, 0, 0, 0, 0]\<rparr>
             122192928000000000 0)"
proof -
  let ?regressed = "\<lparr>LastTimestamp = 122192928000000005, ClockSeq = 7, Node = [0, 0, 0, 0, 0, 0]\<rparr>"
  let ?full = "\<lparr>LastTimestamp = 122192928000000000, ClockSeq = 0x3fff, Node = [0, 0, 0, 0, 0, 0]\<rparr>"
  let ?new = "\<lparr>LastTimestamp = 0, ClockSeq = 7, Node = [0, 0, 0, 0, 0, 0]\<rparr>"
  have rnd: "BigEndian_Uint16 [0, 0] AND clockSeqMask = 0"
    by (simp add: BigEndian_Uint16_def)
  have 1: "NewV1 ?regressed frozen_clock zero_entropy = Some (v1_finish ?regressed 122192928000000000 8)"
    using NewV1_clock_sequence[of ?regressed frozen_clock zero_entropy]
    by (simp add: getTimestamp_frozen clockSeqMask_def)
  have 2: "NewV1 ?full frozen_clock zero_entropy = None"
    using NewV1_clock_sequence[of ?full frozen_clock zero_entropy]
    by (simp add: getTimestamp_frozen clockSeqMask_def)
  have 3: "NewV1 ?full ticking_clock zero_entropy = Some (v1_finish ?full 122192928000000001 0)"
    using NewV1_clock_sequence[of ?full ticking_clock zero_entropy 1] rnd
    by (simp add: getTimestamp_ticking_0 getTimestamp_ticking_1 clockSeqMask_def zero_entropy_def)
  have 4: "NewV1 ?new frozen_clock zero_entropy = Some (v1_finish ?new 122192928000000000 0)"
    using NewV1_clock_sequence[of ?new frozen_clock zero_entropy] rnd
    by (simp add: getTimestamp_frozen zero_entropy_def)
  from 1 2 3 4 show ?thesis by simp
qed

section \<open>Version and variant of generated identifiers\<close>

lemma NewV1_success:
  assumes "NewV1 g clk ent = Some ((s, None), g')"
  shows "\<exists>timestamp clockSeq. s = Sprintf_uuid (v1_bytes timestamp clockSeq (Node g))"
  using assms
  by (auto simp add: NewV1_def v1_finish_def Let_def split: option.splits prod.splits)

lemma UUIDv1asString_success:
  assumes "UUIDv1asString G ifs ent_node ent_seq clk ent = Some ((s, None), G')"
  shows "\<exists>g g'. NewV1 g clk ent = Some ((s, None), g')"
  using assms
  by (auto simp add: UUIDv1asString_def Let_def split: option.splits prod.splits if_splits)

lemma NewV7_success_bytes:
  assumes "fst (NewV7 g now e1 e2) = (s, None)"
  shows "\<exists>seq f. seq \<le> 0x0FFF \<and> s = Sprintf_uuid (v7_bytes now seq f)"
proof (cases "(if now \<noteq> LastMillis g then 0 else Counter g) < 4095")
  case True
  then have "(if now \<noteq> LastMillis g then 0 else Counter g) \<le> 0x0FFF" by simp
  then show ?thesis
    using assms unfolding NewV7_counter[OF True] by (cases e2) auto
next
  case False
  show ?thesis
    using assms random12_le unfolding NewV7_rollover[OF False]
    by (cases e1; cases e2) auto
qed

lemma NewV7_success:
  assumes "fst (NewV7 g now e1 e2) = (s, None)"
  shows "renders_version s 7"
  using NewV7_success_bytes[OF assms] v7_bytes_version by auto

lemma UUIDv7asString_success:
  assumes "fst (UUIDv7asString G now e1 e2) = (s, None)"
  shows "\<exists>g. fst (NewV7 g now e1 e2) = (s, None)"
  using assms unfolding UUIDv7asString_NewV7
  by (auto simp add: Let_def split: option.splits if_splits)

lemma v4_bytes_fields:
  "length ((map f [0..<16])[6 := (f 6 AND 0x0f) OR 0x40, 8 := (f 8 AND 0x3f) OR 0x80]) = 16 \<and>
   version_of ((map f [0..<16])[6 := (f 6 AND 0x0f) OR 0x40, 8 := (f 8 AND 0x3f) OR 0x80]) = 4 \<and>
   variant_of ((map f [0..<16])[6 := (f 6 AND 0x0f) OR 0x40, 8 := (f 8 AND 0x3f) OR 0x80]) = 2"
  using version4_bits[of "f 6"] variant_bits[of "f 8"]
  by (simp add: version_of_def variant_of_def del: upt_Suc)

text \<open>
  C1. Whenever a generator call succeeds, the identifier it returns has the version
  nibble of its generator in the top four bits of byte 6 (1 for \<open>NewV1\<close> and
  \<open>UUIDv1asString\<close>, 4 for \<open>UUIDv4asString\<close> and \<open>UUIDv4\<close>, 7 for \<open>NewV7\<close> and
  \<open>UUIDv7asString\<close>) and the bits \<open>10\<close> in the top two bits of byte 8. For the functions
  that return a string, the identifier is the 16 bytes the string renders, which the
  parser gives back.
\<close>

theorem generated_version_variant:
  "(NewV1 g clk ent = Some ((s1, None), g') \<longrightarrow> renders_version s1 1) \<and>
   (UUIDv1asString G ifs ent_node ent_seq clk ent = Some ((s2, None), G') \<longrightarrow>
      renders_version s2 1) \<and>
   (UUIDv4asString ent4 = (s3, None) \<longrightarrow> renders_version s3 4) \<and>
   (UUIDv4 ent4 = (u, None) \<longrightarrow> length u = 16 \<and> version_of u = 4 \<and> variant_of u = 2) \<and>
   (NewV7 g7 now e1 e2 = ((s4, None), g7') \<longrightarrow> renders_version s4 7) \<and>
   (UUIDv7asString G7 now e1 e2 = ((s5, None), G7') \<longrightarrow> renders_version s5 7)"
proof -
  have 1: "renders_version s1 1" if "NewV1 g clk ent = Some ((s1, None), g')"
    using that NewV1_success v1_bytes_version by blast
  have 2: "renders_version s2 1"
    if "UUIDv1asString G ifs ent_node ent_seq clk ent = Some ((s2, None), G')"
    using that UUIDv1asString_success NewV1_success v1_bytes_version by blast
  have 3: "renders_version s3 4" if a: "UUIDv4asString ent4 = (s3, None)"
  proof -
    obtain f where "ent4 = Entropy f"
      using a by (cases ent4) (auto simp: UUIDv4asString_fails)
    then show ?thesis
      using a v4_bytes_version[of f] by (simp add: UUIDv4asString_ok)
  qed
  have 4: "length u = 16 \<and> version_of u = 4 \<and> variant_of u = 2" if a: "UUIDv4 ent4 = (u, None)"
  proof -
    obtain f where "ent4 = Entropy f"
      using a by (cases ent4) (auto simp: UUIDv4_fails)
    then show ?thesis
      using a v4_bytes_fields[of f] by (simp add: UUIDv4_ok)
  qed
  have 5: "renders_version s4 7" if "NewV7 g7 now e1 e2 = ((s4, None), g7')"
    using that NewV7_success[of g7 now e1 e2 s4] by simp
  have 6: "renders_version s5 7" if "UUIDv7asString G7 now e1 e2 = ((s5, None), G7')"
    using that UUIDv7asString_success[of G7 now e1 e2 s5] NewV7_success by auto
  from 1 2 3 4 5 6 show ?thesis by blast
qed

lemma v4_example:
  "Sprintf_uuid ((map (\<lambda>_. 0) [0..<16])[6 := (0 AND 0x0f) OR 0x40, 8 := (0 AND 0x3f) OR 0x80]) =
     ''00000000-0000-4000-8000-000000000000''"
  by (simp add: upt16 update_numeral Sprintf_uuid16 fmt_x_Cons fmt_x_Nil ldigits_def)

theorem generated_version_variant_witness:
  "UUIDv4asString zero_entropy = (''00000000-0000-4000-8000-000000000000'', None) \<and>
   renders_version ''00000000-0000-4000-8000-000000000000'' 4 \<and>
   NewV7 \<lparr>LastMillis = 1000, Counter = 500\<rparr> 2000 zero_entropy zero_entropy =
     ((''00000000-07d0-7000-8000-000000000000'', None), \<lparr>LastMillis = 2000, Counter = 1\<rparr>) \<and>
   renders_version ''00000000-07d0-7000-8000-000000000000'' 7"
proof -
  have a: "UUIDv4asString zero_entropy = (''00000000-0000-4000-8000-000000000000'', None)"
    unfolding zero_entropy_def UUIDv4asString_ok using v4_example by simp
  have "renders_version ''00000000-0000-4000-8000-000000000000'' 4"
    by (rule generated_version_variant[THEN conjunct2, THEN conjunct2, THEN conjunct1,
          THEN mp, OF a])
  moreover have "renders_version ''00000000-07d0-7000-8000-000000000000'' 7"
    by (rule generated_version_variant[THEN conjunct2, THEN conjunct2, THEN conjunct2,
          THEN conjunct2, THEN conjunct1, THEN mp, OF NewV7_example_2000])
  ultimately show ?thesis using a NewV7_example_2000 by simp
qed

end
